theory Spec2Isabelle
  imports Main
begin

section \<open>Go strings and the library functions the parser calls\<close>

text \<open>
  A Go string is a sequence of bytes, and \<open>len\<close> and indexing count bytes: \<open>string\<close>
  (a list of 8-bit \<open>char\<close>) is that type. The functions of this section are those of
  the packages \<open>strings\<close>, \<open>regexp\<close> and \<open>strconv\<close> that package \<open>inifile\<close> calls,
  written at the level of bytes.
\<close>

subsection \<open>\<open>strings.TrimSpace\<close>\<close>

text \<open>
  \<open>TrimSpace\<close> removes the leading, then the trailing white space, as \<open>unicode.IsSpace\<close>
  defines it: the six ASCII characters of \<open>asciiSpace\<close> and the runes U+0085, U+00A0, U+1680,
  U+2000 to U+200A, U+2028, U+2029, U+202F, U+205F and U+3000, which stand in the string
  as their UTF-8 encodings (\<open>unicodeSpaces\<close>). A byte that starts no valid encoding decodes
  to \<open>RuneError\<close> of width 1, which is no space, so matching the encodings at the ends of
  the byte string is what decoding does.
\<close>

definition asciiSpace :: "char \<Rightarrow> bool" where
  "asciiSpace c = (c = CHR 0x09 \<or> c = CHR 0x0A \<or> c = CHR 0x0B \<or> c = CHR 0x0C
                    \<or> c = CHR 0x0D \<or> c = CHR 0x20)"

definition unicodeSpaces :: "string list" where
  "unicodeSpaces =
     [[CHR 0xC2, CHR 0x85], [CHR 0xC2, CHR 0xA0], [CHR 0xE1, CHR 0x9A, CHR 0x80],
      [CHR 0xE2, CHR 0x80, CHR 0x80], [CHR 0xE2, CHR 0x80, CHR 0x81],
      [CHR 0xE2, CHR 0x80, CHR 0x82], [CHR 0xE2, CHR 0x80, CHR 0x83],
      [CHR 0xE2, CHR 0x80, CHR 0x84], [CHR 0xE2, CHR 0x80, CHR 0x85],
      [CHR 0xE2, CHR 0x80, CHR 0x86], [CHR 0xE2, CHR 0x80, CHR 0x87],
      [CHR 0xE2, CHR 0x80, CHR 0x88], [CHR 0xE2, CHR 0x80, CHR 0x89],
      [CHR 0xE2, CHR 0x80, CHR 0x8A], [CHR 0xE2, CHR 0x80, CHR 0xA8],
      [CHR 0xE2, CHR 0x80, CHR 0xA9], [CHR 0xE2, CHR 0x80, CHR 0xAF],
      [CHR 0xE2, CHR 0x81, CHR 0x9F], [CHR 0xE3, CHR 0x80, CHR 0x80]]"

text \<open>\<open>strings.HasPrefix\<close> and \<open>strings.HasSuffix\<close>, as the library writes them.\<close>

definition HasPrefix :: "string \<Rightarrow> string \<Rightarrow> bool" where
  "HasPrefix s p = (length p \<le> length s \<and> take (length p) s = p)"

definition HasSuffix :: "string \<Rightarrow> string \<Rightarrow> bool" where
  "HasSuffix s p = (length p \<le> length s \<and> drop (length s - length p) s = p)"

text \<open>The width in bytes of the white-space rune a string starts (ends) with, 0 when
  it starts (ends) with none.\<close>

definition leadingSpace :: "string \<Rightarrow> nat" where
  "leadingSpace s =
     (case s of [] \<Rightarrow> 0
      | c # _ \<Rightarrow> if asciiSpace c then 1
                 else (case find (HasPrefix s) unicodeSpaces of
                         Some u \<Rightarrow> length u | None \<Rightarrow> 0))"

definition trailingSpace :: "string \<Rightarrow> nat" where
  "trailingSpace s =
     (if s = [] then 0
      else if asciiSpace (last s) then 1
      else (case find (HasSuffix s) unicodeSpaces of
              Some u \<Rightarrow> length u | None \<Rightarrow> 0))"

lemma leadingSpace_le: "leadingSpace s \<le> length s"
  by (auto simp: leadingSpace_def HasPrefix_def find_Some_iff
      split: list.splits option.splits)

lemma trailingSpace_le: "trailingSpace s \<le> length s"
  by (cases s) (auto simp: trailingSpace_def HasSuffix_def find_Some_iff split: option.splits)

function TrimLeft :: "string \<Rightarrow> string" where
  "TrimLeft s = (if leadingSpace s = 0 then s else TrimLeft (drop (leadingSpace s) s))"
  by pat_completeness auto
termination
proof (relation "measure length")
  fix s :: string
  assume "leadingSpace s \<noteq> 0"
  moreover have "leadingSpace s \<le> length s" by (rule leadingSpace_le)
  ultimately show "(drop (leadingSpace s) s, s) \<in> measure length" by simp
qed simp

function TrimRight :: "string \<Rightarrow> string" where
  "TrimRight s =
     (if trailingSpace s = 0 then s else TrimRight (take (length s - trailingSpace s) s))"
  by pat_completeness auto
termination
proof (relation "measure length")
  fix s :: string
  assume "trailingSpace s \<noteq> 0"
  moreover have "trailingSpace s \<le> length s" by (rule trailingSpace_le)
  ultimately show "(take (length s - trailingSpace s) s, s) \<in> measure length" by simp
qed simp

declare TrimLeft.simps [simp del] TrimRight.simps [simp del]

definition TrimSpace :: "string \<Rightarrow> string" where
  "TrimSpace s = TrimRight (TrimLeft s)"

subsection \<open>\<open>strings.ToLower\<close> and \<open>strings.ToUpper\<close>\<close>

text \<open>
  On a string of ASCII bytes the two functions map the letters; on any other string they
  are \<open>strings.Map\<close> of \<open>unicode.ToLower\<close> (\<open>unicode.ToUpper\<close>), which reads the Unicode
  case tables. The tables are not part of the repository: these two maps are the
  parameters \<open>mapLower\<close> and \<open>mapUpper\<close> of the development, and every theorem holds for
  whatever they are.
\<close>

record caseTables =
  mapLower :: "string \<Rightarrow> string"
  mapUpper :: "string \<Rightarrow> string"

definition isASCII :: "string \<Rightarrow> bool" where
  "isASCII s = list_all (\<lambda>c. (of_char c :: nat) < 0x80) s"

definition asciiLower :: "char \<Rightarrow> char" where
  "asciiLower c =
     (if (of_char (CHR ''A'') :: nat) \<le> of_char c \<and> (of_char c :: nat) \<le> of_char (CHR ''Z'')
      then char_of ((of_char c :: nat) + 32) else c)"

definition asciiUpper :: "char \<Rightarrow> char" where
  "asciiUpper c =
     (if (of_char (CHR ''a'') :: nat) \<le> of_char c \<and> (of_char c :: nat) \<le> of_char (CHR ''z'')
      then char_of ((of_char c :: nat) - 32) else c)"

definition ToLower :: "caseTables \<Rightarrow> string \<Rightarrow> string" where
  "ToLower T s = (if isASCII s then map asciiLower s else mapLower T s)"

definition ToUpper :: "caseTables \<Rightarrow> string \<Rightarrow> string" where
  "ToUpper T s = (if isASCII s then map asciiUpper s else mapUpper T s)"

subsection \<open>\<open>strings.Index\<close>, \<open>strings.Replace\<close> and \<open>strings.Split\<close>\<close>

fun Index :: "string \<Rightarrow> string \<Rightarrow> nat option" where
  "Index [] sep = (if sep = [] then Some 0 else None)"
| "Index (c # s) sep =
     (if HasPrefix (c # s) sep then Some 0 else map_option Suc (Index s sep))"

lemma Index_bound: "Index s sep = Some i \<Longrightarrow> i + length sep \<le> length s"
  by (induction s arbitrary: i) (auto simp: HasPrefix_def split: if_splits)

text \<open>
  \<open>Replace s old new\<close> is \<open>strings.Replace(s, old, new, -1)\<close> and \<open>Split s sep\<close> is
  \<open>strings.Split(s, sep)\<close>, both for a non-empty \<open>old\<close> and \<open>sep\<close>: the occurrences are
  taken from left to right and do not overlap. For an empty \<open>old\<close> or \<open>sep\<close> the library
  works between the UTF-8 sequences of \<open>s\<close>; the parser never gets there (it takes every
  line for a comment when the comment marker is empty), and that case is left out of
  the two functions below, which leave \<open>s\<close> whole there.
\<close>

function Replace :: "string \<Rightarrow> string \<Rightarrow> string \<Rightarrow> string" where
  "Replace s old new =
     (if old = [] then s
      else (case Index s old of
              None \<Rightarrow> s
            | Some i \<Rightarrow> take i s @ new @ Replace (drop (i + length old) s) old new))"
  by pat_completeness auto
termination
proof (relation "measure (\<lambda>(s, old, new). length s)")
  fix s old new :: string and i
  assume "old \<noteq> []" and "Index s old = Some i"
  then have "length (drop (i + length old) s) < length s"
    using Index_bound [of s old i] by (cases old) auto
  then show "((drop (i + length old) s, old, new), s, old, new)
               \<in> measure (\<lambda>(s, old, new). length s)"
    by simp
qed simp

function Split :: "string \<Rightarrow> string \<Rightarrow> string list" where
  "Split s sep =
     (if sep = [] then [s]
      else (case Index s sep of
              None \<Rightarrow> [s]
            | Some i \<Rightarrow> take i s # Split (drop (i + length sep) s) sep))"
  by pat_completeness auto
termination
proof (relation "measure (\<lambda>(s, sep). length s)")
  fix s sep :: string and i
  assume "sep \<noteq> []" and "Index s sep = Some i"
  then have "length (drop (i + length sep) s) < length s"
    using Index_bound [of s sep i] by (cases sep) auto
  then show "((drop (i + length sep) s, sep), s, sep) \<in> measure (\<lambda>(s, sep). length s)"
    by simp
qed simp

declare Replace.simps [simp del] Split.simps [simp del]

subsection \<open>The regular expressions\<close>

text \<open>
  The parser uses three patterns, \<open>\[(.*)\]\<close>, \<open>([^=]*)=(.*)\<close> and \<open>([^=]*):(.*)\<close>: sequences
  of literal characters and of capturing groups that hold one starred character class.
  A \<open>regex\<close> is such a sequence. The class \<open>.\<close> matches every character but the line feed,
  the class \<open>[^c]\<close> every character but \<open>c\<close>. The characters the three patterns name are
  ASCII, so a class matches a multi-byte rune exactly when it matches each of its bytes,
  and the patterns can be run on the bytes.
\<close>

datatype cls = Dot | NotCh char

datatype node = Lit char | CapStar cls

type_synonym regex = "node list"

fun inCls :: "cls \<Rightarrow> char \<Rightarrow> bool" where
  "inCls Dot c = (c \<noteq> CHR 0x0A)"
| "inCls (NotCh x) c = (c \<noteq> x)"

text \<open>
  \<open>greedy p k s\<close> runs a starred class \<open>p\<close> followed by the rest \<open>k\<close> of the pattern on
  \<open>s\<close>: it prefers one more character of the class, and gives characters back one at a
  time when the rest does not match (the leftmost-first rule of package \<open>regexp\<close>). It
  returns the text of the star and what \<open>k\<close> returned.
\<close>

fun greedy :: "(char \<Rightarrow> bool) \<Rightarrow> (string \<Rightarrow> 'a option) \<Rightarrow> string \<Rightarrow> (string \<times> 'a) option" where
  "greedy p k [] = map_option (Pair []) (k [])"
| "greedy p k (x # xs) =
     (if p x
      then (case greedy p k xs of
              Some (c, r) \<Rightarrow> Some (x # c, r)
            | None \<Rightarrow> map_option (Pair []) (k (x # xs)))
      else map_option (Pair []) (k (x # xs)))"

text \<open>A match of the pattern that starts at the head of the string: the matched text and
  the texts of the groups, in order.\<close>

primrec matchHere :: "regex \<Rightarrow> string \<Rightarrow> (string \<times> string list) option" where
  "matchHere [] s = Some ([], [])"
| "matchHere (n # r) s =
     (case n of
        Lit c \<Rightarrow>
          (case s of
             [] \<Rightarrow> None
           | x # xs \<Rightarrow> if x = c then map_option (\<lambda>(m, cs). (x # m, cs)) (matchHere r xs)
                      else None)
      | CapStar k \<Rightarrow>
          map_option (\<lambda>(c, m, cs). (c @ m, c # cs)) (greedy (inCls k) (matchHere r) s))"

text \<open>
  \<open>FindStringSubmatch\<close> returns the leftmost match: the matched text, then the text of
  each group; the empty list stands for the nil slice of no match. The patterns are not
  anchored, so a match may start anywhere in the string.
\<close>

fun FindStringSubmatch :: "regex \<Rightarrow> string \<Rightarrow> string list" where
  "FindStringSubmatch r [] = (case matchHere r [] of Some (m, cs) \<Rightarrow> m # cs | None \<Rightarrow> [])"
| "FindStringSubmatch r (x # xs) =
     (case matchHere r (x # xs) of
        Some (m, cs) \<Rightarrow> m # cs
      | None \<Rightarrow> FindStringSubmatch r xs)"

definition MatchString :: "regex \<Rightarrow> string \<Rightarrow> bool" where
  "MatchString r s = (FindStringSubmatch r s \<noteq> [])"

definition rx_section :: regex where
  "rx_section = [Lit (CHR ''[''), CapStar Dot, Lit (CHR '']'')]"

definition rx_property :: regex where
  "rx_property = [CapStar (NotCh (CHR ''='')), Lit (CHR ''=''), CapStar Dot]"

definition rx_colon_property :: regex where
  "rx_colon_property = [CapStar (NotCh (CHR ''='')), Lit (CHR '':''), CapStar Dot]"

subsection \<open>Package \<open>strconv\<close>\<close>

text \<open>
  \<open>ParseBool\<close>, \<open>ParseUint(s, 10, 64)\<close> and \<open>ParseInt(s, 10, 64)\<close>; \<open>None\<close> is a non-nil
  error (the callers drop the value returned with an error). The values of \<open>uint64\<close> and
  \<open>int64\<close> are integers in range: both functions check the range and never wrap.
  \<open>ParseFloat\<close> is a parameter of the accessor that calls it, with the type of its
  results.
\<close>

definition ParseBool :: "string \<Rightarrow> bool option" where
  "ParseBool s =
     (if s \<in> set [''1'', ''t'', ''T'', ''TRUE'', ''true'', ''True''] then Some True
      else if s \<in> set [''0'', ''f'', ''F'', ''FALSE'', ''false'', ''False''] then Some False
      else None)"

definition isDigit :: "char \<Rightarrow> bool" where
  "isDigit c = ((of_char (CHR ''0'') :: nat) \<le> of_char c \<and> (of_char c :: nat) \<le> of_char (CHR ''9''))"

definition digitsValue :: "string \<Rightarrow> int" where
  "digitsValue s = foldl (\<lambda>n c. 10 * n + (of_char c - of_char (CHR ''0''))) 0 s"

definition ParseUint :: "string \<Rightarrow> int option" where
  "ParseUint s =
     (if s = [] then None
      else if \<not> list_all isDigit s then None
      else if digitsValue s < 2 ^ 64 then Some (digitsValue s) else None)"

definition ParseInt :: "string \<Rightarrow> int option" where
  "ParseInt s =
     (case s of
        [] \<Rightarrow> None
      | c # t \<Rightarrow>
          (let neg = (c = CHR ''-'');
               u = (if c = CHR ''+'' \<or> c = CHR ''-'' then t else s)
           in if u = [] \<or> \<not> list_all isDigit u then None
              else if \<not> neg \<and> 2 ^ 63 \<le> digitsValue u then None
              else if neg \<and> 2 ^ 63 < digitsValue u then None
              else Some (if neg then - digitsValue u else digitsValue u)))"

section \<open>The data model\<close>

text \<open>The cell of the store: a string that knows whether it was set.\<close>

record nilableString =
  val :: string
  isset :: bool

definition Set_ns :: "nilableString \<Rightarrow> string \<Rightarrow> nilableString" where
  "Set_ns ns v = ns\<lparr>val := v, isset := True\<rparr>"

definition newNilableString :: "string \<Rightarrow> nilableString" where
  "newNilableString v = Set_ns \<lparr>val = [], isset = False\<rparr> v"

definition String_ns :: "nilableString \<Rightarrow> string" where
  "String_ns ns = val ns"

definition IsSet :: "nilableString \<Rightarrow> bool" where
  "IsSet ns = isset ns"

text \<open>A rune is an \<open>int32\<close>; the code only compares runes.\<close>

type_synonym rune = int

record IniOptions =
  CaseSensitive :: bool
  CommentStart :: string
  TrimProperties :: bool
  TolerateBlankLines :: bool
  AllowGlobalSection :: bool
  DiscardPropertiesWithNoValue :: bool
  UseGoBoolRules :: bool
  StrictBoolTrue :: string
  StrictBoolFalse :: string
  StrictBoolCaseSensitive :: bool
  IgnoreUnparseable :: bool
  AllowInlineComments :: bool
  CommentEscapePrefix :: string
  StripEnclosingQuotes :: bool
  EnclosingQuoteSymbols :: "rune list"
  UseColonAssignment :: bool

definition DefaultIniOptions :: IniOptions where
  "DefaultIniOptions =
     \<lparr>CaseSensitive = True, CommentStart = '';'', TrimProperties = True,
      TolerateBlankLines = True, AllowGlobalSection = True,
      DiscardPropertiesWithNoValue = True, UseGoBoolRules = True,
      StrictBoolTrue = [], StrictBoolFalse = [], StrictBoolCaseSensitive = True,
      IgnoreUnparseable = False, AllowInlineComments = False,
      CommentEscapePrefix = [CHR 0x5C], StripEnclosingQuotes = False,
      EnclosingQuoteSymbols = [of_char (CHR 0x27), of_char (CHR 0x22)],
      UseColonAssignment = False\<rparr>"

text \<open>
  \<open>sectionPropertyMap\<close>: a map from section names to maps from property names to cells.
  A missing key reads as nil, which is \<open>None\<close>; the cells stored are never nil.
\<close>

type_synonym sectionPropertyMap = "string \<rightharpoonup> (string \<rightharpoonup> nilableString)"

record IniConfig =
  sections :: sectionPropertyMap
  options :: IniOptions

definition GLOBAL_SECTION :: string where
  "GLOBAL_SECTION = []"

text \<open>The errors, one constructor for each message the code formats, with the arguments
  of the message.\<close>

datatype error =
    NilFile
  | NilOptions
  | EmptyCommentStart
  | NoSuchSection string
  | NoSuchProperty string string
  | NotFloat64 string string string
  | NotInt64 string string string
  | NotUint64 string string string
  | NotGoBool string string
  | NoStrictBoolMatch string string string string string
  | BlankLine nat
  | UnparseableSection nat
  | PropertyOutsideSection nat
  | UnparseableProperty nat
  | UnparseableLine nat

section \<open>The store and its accessors\<close>

definition normalise :: "caseTables \<Rightarrow> IniConfig \<Rightarrow> string \<Rightarrow> string" where
  "normalise T ic s = (if CaseSensitive (options ic) then s else ToLower T s)"

definition findSection :: "caseTables \<Rightarrow> IniConfig \<Rightarrow> string \<Rightarrow> (string \<rightharpoonup> nilableString) option" where
  "findSection T ic sectionName = sections ic (normalise T ic sectionName)"


definition PropertyExists :: "caseTables \<Rightarrow> IniConfig \<Rightarrow> string \<Rightarrow> string \<Rightarrow> bool" where
  "PropertyExists T ic sectionName propertyName =
     (let propertyName = normalise T ic propertyName
      in case findSection T ic sectionName of
           None \<Rightarrow> False
         | Some foundSection \<Rightarrow> foundSection propertyName \<noteq> None)"

definition Value :: "caseTables \<Rightarrow> IniConfig \<Rightarrow> string \<Rightarrow> string \<Rightarrow> error + string" where
  "Value T ic sectionName propertyName =
     (let section = findSection T ic sectionName;
          propertyName = normalise T ic propertyName
      in case section of
           None \<Rightarrow> Inl (NoSuchSection sectionName)
         | Some sec \<Rightarrow>
             (case sec propertyName of
                None \<Rightarrow> Inl (NoSuchProperty sectionName propertyName)
              | Some v \<Rightarrow> Inr (String_ns v)))"

definition ValueOrZero :: "caseTables \<Rightarrow> IniConfig \<Rightarrow> string \<Rightarrow> string \<Rightarrow> string" where
  "ValueOrZero T ic sectionName propertyName =
     (case Value T ic sectionName propertyName of Inr v \<Rightarrow> v | Inl err \<Rightarrow> [])"

definition ValueAsFloat64 ::
  "(string \<Rightarrow> 'f option) \<Rightarrow> caseTables \<Rightarrow> IniConfig \<Rightarrow> string \<Rightarrow> string \<Rightarrow> error + 'f" where
  "ValueAsFloat64 ParseFloat T ic sectionName propertyName =
     (case Value T ic sectionName propertyName of
        Inl err \<Rightarrow> Inl err
      | Inr sv \<Rightarrow>
          (case ParseFloat sv of
             Some v \<Rightarrow> Inr v
           | None \<Rightarrow> Inl (NotFloat64 sectionName propertyName sv)))"

definition ValueOrZeroAsFloat64 ::
  "(string \<Rightarrow> 'f option) \<Rightarrow> caseTables \<Rightarrow> IniConfig \<Rightarrow> string \<Rightarrow> string \<Rightarrow> 'f::zero" where
  "ValueOrZeroAsFloat64 ParseFloat T ic sectionName propertyName =
     (case ValueAsFloat64 ParseFloat T ic sectionName propertyName of
        Inr v \<Rightarrow> v | Inl err \<Rightarrow> 0)"

definition ValueAsInt64 :: "caseTables \<Rightarrow> IniConfig \<Rightarrow> string \<Rightarrow> string \<Rightarrow> error + int" where
  "ValueAsInt64 T ic sectionName propertyName =
     (case Value T ic sectionName propertyName of
        Inl err \<Rightarrow> Inl err
      | Inr sv \<Rightarrow>
          (case ParseInt sv of
             Some v \<Rightarrow> Inr v
           | None \<Rightarrow> Inl (NotInt64 sectionName propertyName sv)))"

definition ValueOrZeroAsInt64 :: "caseTables \<Rightarrow> IniConfig \<Rightarrow> string \<Rightarrow> string \<Rightarrow> int" where
  "ValueOrZeroAsInt64 T ic sectionName propertyName =
     (case ValueAsInt64 T ic sectionName propertyName of Inr v \<Rightarrow> v | Inl err \<Rightarrow> 0)"

definition ValueAsUint64 :: "caseTables \<Rightarrow> IniConfig \<Rightarrow> string \<Rightarrow> string \<Rightarrow> error + int" where
  "ValueAsUint64 T ic sectionName propertyName =
     (case Value T ic sectionName propertyName of
        Inl err \<Rightarrow> Inl err
      | Inr sv \<Rightarrow>
          (case ParseUint sv of
             Some v \<Rightarrow> Inr v
           | None \<Rightarrow> Inl (NotUint64 sectionName propertyName sv)))"

definition ValueOrZeroAsUint64 :: "caseTables \<Rightarrow> IniConfig \<Rightarrow> string \<Rightarrow> string \<Rightarrow> int" where
  "ValueOrZeroAsUint64 T ic sectionName propertyName =
     (case ValueAsUint64 T ic sectionName propertyName of Inr v \<Rightarrow> v | Inl err \<Rightarrow> 0)"

definition ValueAsBool :: "caseTables \<Rightarrow> IniConfig \<Rightarrow> string \<Rightarrow> string \<Rightarrow> error + bool" where
  "ValueAsBool T ic sectionName propertyName =
     (case Value T ic sectionName propertyName of
        Inl err \<Rightarrow> Inl err
      | Inr sv \<Rightarrow>
          (let origSv = sv; opts = options ic
           in if UseGoBoolRules opts
              then (case ParseBool sv of
                      Some bv \<Rightarrow> Inr bv
                    | None \<Rightarrow> Inl (NotGoBool sectionName propertyName))
              else (let (strictTrue, strictFalse, sv) =
                          (if \<not> StrictBoolCaseSensitive opts
                           then (ToUpper T (StrictBoolTrue opts),
                                 ToUpper T (StrictBoolFalse opts), ToUpper T sv)
                           else (StrictBoolTrue opts, StrictBoolFalse opts, sv))
                    in if sv = strictTrue then Inr True
                       else if sv = strictFalse then Inr False
                       else Inl (NoStrictBoolMatch sectionName propertyName origSv
                                   (StrictBoolTrue opts) (StrictBoolFalse opts)))))"

definition ValueOrZeroAsBool :: "caseTables \<Rightarrow> IniConfig \<Rightarrow> string \<Rightarrow> string \<Rightarrow> bool" where
  "ValueOrZeroAsBool T ic sectionName propertyName =
     (case ValueAsBool T ic sectionName propertyName of Inr v \<Rightarrow> v | Inl err \<Rightarrow> False)"

text \<open>\<open>Add\<close> writes into the store of \<open>ic\<close>; the model returns the configuration written.\<close>

definition Add :: "caseTables \<Rightarrow> IniConfig \<Rightarrow> string \<Rightarrow> string \<Rightarrow> string \<Rightarrow> IniConfig" where
  "Add T ic section propertyName v =
     (let section = normalise T ic section;
          propertyName = normalise T ic propertyName;
          storedSection = (case sections ic section of
                             None \<Rightarrow> Map.empty
                           | Some m \<Rightarrow> m)
      in ic\<lparr>sections :=
              (sections ic)(section \<mapsto> storedSection(propertyName \<mapsto> newNilableString v))\<rparr>)"

section \<open>The parser\<close>

definition stripQuotes :: "IniConfig \<Rightarrow> string \<Rightarrow> string" where
  "stripQuotes ic v =
     (let opts = options ic; vLength = length v
      in if \<not> StripEnclosingQuotes opts \<or> vLength < 2 then v
         else (case find (\<lambda>r. of_char (v ! 0) = r \<and> of_char (v ! (vLength - 1)) = r)
                      (EnclosingQuoteSymbols opts) of
                 Some r \<Rightarrow> take (vLength - 1 - 1) (drop 1 v)
               | None \<Rightarrow> v))"

definition stripInlineComments :: "IniConfig \<Rightarrow> string \<Rightarrow> string" where
  "stripInlineComments ic line =
     (let opts = options ic
      in if \<not> AllowInlineComments opts then line
         else (let ph = ''[ESC_PH?]'';
                   escapeSeq = CommentEscapePrefix opts @ CommentStart opts;
                   line = Replace line escapeSeq ph;
                   line = hd (Split line (CommentStart opts));
                   line = Replace line ph (CommentStart opts)
               in line))"


subsection \<open>The lines that the scanner yields\<close>

text \<open>
  \<open>parse\<close> reads the file through \<open>bufio.NewScanner\<close>, whose split function is \<open>ScanLines\<close>
  and whose buffer grows to \<open>MaxScanTokenSize\<close> bytes. The file is its content: the bytes
  that the reads deliver up to the end of the file.

  \<open>fileLines\<close> cuts the content at its line feeds, as \<open>ScanLines\<close> does: a line ends before
  a line feed or at the end of the content, and nothing follows a last line feed. The
  token of a line is the line without the carriage return at its end (\<open>dropCR\<close>). A line
  of \<open>MaxScanTokenSize\<close> bytes or more before its line feed fills the buffer with no token
  in it: there \<open>Scan()\<close> returns false and the scanner keeps the error \<open>ErrTooLong\<close>.
  \<open>Scan\<close> is the list of the tokens for which \<open>Scan()\<close> returns true: those of the lines
  before the first line of that length.
\<close>

definition MaxScanTokenSize :: int where
  "MaxScanTokenSize = 64 * 1024"

definition dropCR :: "string \<Rightarrow> string" where
  "dropCR data = (if data \<noteq> [] \<and> last data = CHR 0x0D then butlast data else data)"

function fileLines :: "string \<Rightarrow> string list" where
  "fileLines data =
     (if data = [] then []
      else takeWhile (\<lambda>c. c \<noteq> CHR 0x0A) data
             # fileLines (drop (Suc (length (takeWhile (\<lambda>c. c \<noteq> CHR 0x0A) data))) data))"
  by pat_completeness auto
termination
  by (relation "measure length") auto

declare fileLines.simps [simp del]

definition Scan :: "string \<Rightarrow> string list" where
  "Scan data =
     map dropCR (takeWhile (\<lambda>l. int (length l) < MaxScanTokenSize) (fileLines data))"

subsection \<open>The loop of \<open>parse\<close>\<close>

text \<open>
  \<open>parse_line\<close> is the body of the loop of \<open>parse\<close> for one token, with the line number
  already counted; it returns the error that leaves the loop, or the configuration and
  the current section the next turn starts with. \<open>parse_loop\<close> runs the body over the
  tokens. The loop ends when \<open>Scan()\<close> returns false, and \<open>parse\<close> then returns nil without
  reading the error of the scanner: after a line too long for the buffer it returns what
  the lines before it stored, as it does at the end of the file.
\<close>

definition parse_line ::
  "caseTables \<Rightarrow> IniConfig \<Rightarrow> string \<Rightarrow> nat \<Rightarrow> string \<Rightarrow> error + (IniConfig \<times> string)" where
  "parse_line T ic section lineNumber text =
     (let opts = options ic;
          sectionRx = rx_section;
          propRx = (if UseColonAssignment opts then rx_colon_property else rx_property);
          l = TrimSpace text;
          lineLength = length l
      in if lineLength = 0 \<and> \<not> TolerateBlankLines opts then Inl (BlankLine lineNumber)
         else if lineLength = 0 \<or> HasPrefix l (CommentStart opts) then Inr (ic, section)
         else (let l = stripInlineComments ic l
               in if MatchString sectionRx l
                  then (let matches = FindStringSubmatch sectionRx l
                        in if length matches \<noteq> 2 then Inl (UnparseableSection lineNumber)
                           else Inr (ic, matches ! 1))
                  else if MatchString propRx l
                  then (if section = GLOBAL_SECTION \<and> \<not> AllowGlobalSection opts
                        then Inl (PropertyOutsideSection lineNumber)
                        else (let matches = FindStringSubmatch propRx l
                              in if length matches \<noteq> 3
                                 then Inl (UnparseableProperty lineNumber)
                                 else (let key = matches ! 1;
                                           v = matches ! 2;
                                           key = (if TrimProperties opts then TrimSpace key
                                                  else key);
                                           v = (if TrimProperties opts then TrimSpace v else v);
                                           v = stripQuotes ic v
                                       in if length v > 0 \<or> \<not> DiscardPropertiesWithNoValue opts
                                          then Inr (Add T ic section key v, section)
                                          else Inr (ic, section))))
                  else if \<not> IgnoreUnparseable opts then Inl (UnparseableLine lineNumber)
                  else Inr (ic, section)))"

fun parse_loop ::
  "caseTables \<Rightarrow> IniConfig \<Rightarrow> string \<Rightarrow> nat \<Rightarrow> string list \<Rightarrow> error + IniConfig" where
  "parse_loop T ic section lineNumber [] = Inr ic"
| "parse_loop T ic section lineNumber (text # rest) =
     (case parse_line T ic section (lineNumber + 1) text of
        Inl err \<Rightarrow> Inl err
      | Inr (ic', section') \<Rightarrow> parse_loop T ic' section' (lineNumber + 1) rest)"

definition parse :: "caseTables \<Rightarrow> IniConfig \<Rightarrow> string \<Rightarrow> error + IniConfig" where
  "parse T ic cf = parse_loop T ic GLOBAL_SECTION 0 (Scan cf)"

text \<open>The file and the options are pointers: \<open>None\<close> is nil.\<close>

definition NewIniConfigFromFileWithOptions ::
  "caseTables \<Rightarrow> string option \<Rightarrow> IniOptions option \<Rightarrow> error + IniConfig" where
  "NewIniConfigFromFileWithOptions T file opts =
     (case file of
        None \<Rightarrow> Inl NilFile
      | Some cf \<Rightarrow>
          (case opts of
             None \<Rightarrow> Inl NilOptions
           | Some os \<Rightarrow>
               if length (TrimSpace (CommentStart os)) = 0 then Inl EmptyCommentStart
               else parse T \<lparr>sections = Map.empty, options = os\<rparr> cf))"

definition NewIniConfigFromFile :: "caseTables \<Rightarrow> string option \<Rightarrow> error + IniConfig" where
  "NewIniConfigFromFile T file = NewIniConfigFromFileWithOptions T file (Some DefaultIniOptions)"

text \<open>The case tables of the examples, whose strings are ASCII: the identity.\<close>

definition asciiTables :: caseTables where
  "asciiTables = \<lparr>mapLower = (\<lambda>s. s), mapUpper = (\<lambda>s. s)\<rparr>"

definition emptyConfig :: "IniOptions \<Rightarrow> IniConfig" where
  "emptyConfig os = \<lparr>sections = Map.empty, options = os\<rparr>"

text \<open>A sequence of calls of \<open>Add\<close>, each with a section, a property name and a value.\<close>

definition AddAll ::
  "caseTables \<Rightarrow> IniConfig \<Rightarrow> (string \<times> string \<times> string) list \<Rightarrow> IniConfig" where
  "AddAll T ic xs = foldl (\<lambda>ic (s, p, v). Add T ic s p v) ic xs"

text \<open>Every cell of the store was set.\<close>

definition allSet :: "IniConfig \<Rightarrow> bool" where
  "allSet ic = (\<forall>s sec p c. sections ic s = Some sec \<and> sec p = Some c \<longrightarrow> IsSet c)"

text \<open>
  The kinds of lines, in the words of the tests that \<open>parse\<close> makes: the text that it
  matches against the patterns, the lines it takes for blank or for a comment, for a
  section header and for a property, and the key and the value it reads from a property
  line.
\<close>

definition lineText :: "IniConfig \<Rightarrow> string \<Rightarrow> string" where
  "lineText ic text = stripInlineComments ic (TrimSpace text)"

definition propRx :: "IniConfig \<Rightarrow> regex" where
  "propRx ic = (if UseColonAssignment (options ic) then rx_colon_property else rx_property)"

definition blankOrComment :: "IniConfig \<Rightarrow> string \<Rightarrow> bool" where
  "blankOrComment ic text =
     (TrimSpace text = [] \<or> HasPrefix (TrimSpace text) (CommentStart (options ic)))"


definition propertyLine :: "IniConfig \<Rightarrow> string \<Rightarrow> bool" where
  "propertyLine ic text =
     (\<not> blankOrComment ic text \<and> \<not> MatchString rx_section (lineText ic text)
      \<and> MatchString (propRx ic) (lineText ic text))"

definition propertyKey :: "IniConfig \<Rightarrow> string \<Rightarrow> string" where
  "propertyKey ic text =
     (let key = FindStringSubmatch (propRx ic) (lineText ic text) ! 1
      in if TrimProperties (options ic) then TrimSpace key else key)"

definition propertyValue :: "IniConfig \<Rightarrow> string \<Rightarrow> string" where
  "propertyValue ic text =
     (let v = FindStringSubmatch (propRx ic) (lineText ic text) ! 2
      in stripQuotes ic (if TrimProperties (options ic) then TrimSpace v else v))"







text \<open>The number of groups of a pattern.\<close>

fun groups :: "regex \<Rightarrow> nat" where
  "groups [] = 0"
| "groups (Lit c # r) = groups r"
| "groups (CapStar k # r) = Suc (groups r)"


section \<open>What the patterns match\<close>

text \<open>A greedy star takes the longest run of its class when the rest of the pattern
  matches after it, and fails when the rest matches after no part of the string.\<close>

lemma greedy_longest:
  "k (dropWhile p s) = Some r \<Longrightarrow> greedy p k s = Some (takeWhile p s, r)"
  by (induction s) auto

lemma greedy_none:
  "(\<And>n. n \<le> length s \<Longrightarrow> k (drop n s) = None) \<Longrightarrow> greedy p k s = None"
proof (induction s)
  case Nil
  then show ?case using Nil [of 0] by simp
next
  case (Cons x xs)
  have a: "k (x # xs) = None" using Cons.prems [of 0] by simp
  have b: "greedy p k xs = None"
  proof (rule Cons.IH)
    fix n assume "n \<le> length xs"
    then show "k (drop n xs) = None" using Cons.prems [of "Suc n"] by simp
  qed
  show ?case using a b by simp
qed

lemma dot_rest: "greedy (inCls Dot) (matchHere []) s = Some (takeWhile (inCls Dot) s, [], [])"
  by (rule greedy_longest) simp

lemma matchHere_property:
  assumes "c \<in> set t"
  shows "matchHere [CapStar (NotCh c), Lit c, CapStar Dot] t =
           Some (takeWhile (\<lambda>x. x \<noteq> c) t @ c # takeWhile (inCls Dot) (tl (dropWhile (\<lambda>x. x \<noteq> c) t)),
                 [takeWhile (\<lambda>x. x \<noteq> c) t, takeWhile (inCls Dot) (tl (dropWhile (\<lambda>x. x \<noteq> c) t))])"
proof -
  let ?p = "\<lambda>x. x \<noteq> c"
  from assms obtain rest where d: "dropWhile ?p t = c # rest"
    by (metis (mono_tags, lifting) dropWhile_eq_Nil_conv hd_dropWhile list.exhaust_sel)
  have k: "matchHere [Lit c, CapStar Dot] (dropWhile ?p t)
             = Some (c # takeWhile (inCls Dot) rest, [takeWhile (inCls Dot) rest])"
    by (simp add: d dot_rest)
  have i: "inCls (NotCh c) = ?p" by (rule ext) simp
  show ?thesis
    using greedy_longest [of "matchHere [Lit c, CapStar Dot]" ?p t, OF k]
    by (simp add: i d)
qed

lemma Find_property:
  assumes "CHR ''='' \<in> set t"
  shows "FindStringSubmatch rx_property t =
           [takeWhile (\<lambda>x. x \<noteq> CHR ''='') t @ CHR ''='' # takeWhile (inCls Dot) (tl (dropWhile (\<lambda>x. x \<noteq> CHR ''='') t)),
            takeWhile (\<lambda>x. x \<noteq> CHR ''='') t,
            takeWhile (inCls Dot) (tl (dropWhile (\<lambda>x. x \<noteq> CHR ''='') t))]"
  using assms matchHere_property [OF assms]
  by (cases t) (simp_all add: rx_property_def)

lemma lit_none: "c \<notin> set s \<Longrightarrow> matchHere (Lit c # r) (drop n s) = None"
proof (cases "drop n s")
  case Nil
  then show ?thesis by simp
next
  case (Cons x xs)
  assume "c \<notin> set s"
  moreover have "x \<in> set s" using Cons by (metis in_set_dropD list.set_intros(1))
  ultimately have "x \<noteq> c" by auto
  then show ?thesis using Cons by simp
qed

lemma star_lit_none:
  "c \<notin> set s \<Longrightarrow> matchHere (CapStar k # Lit c # r) s = None"
  using greedy_none [of s "matchHere (Lit c # r)" "inCls k"] lit_none [of c s r]
  by simp


lemma lit_star_lit_none:
  "d \<notin> set s \<Longrightarrow> matchHere (Lit c # CapStar k # Lit d # r) (x # s) = None"
  using star_lit_none [of d s k r] by simp

lemma Find_section_none:
  "(\<And>a b. t = a @ CHR ''['' # b \<Longrightarrow> CHR '']'' \<notin> set b) \<Longrightarrow> FindStringSubmatch rx_section t = []"
proof (induction t)
  case Nil
  then show ?case by (simp add: rx_section_def)
next
  case (Cons x xs)
  have ih: "FindStringSubmatch rx_section xs = []"
  proof (rule Cons.IH)
    fix a b assume "xs = a @ CHR ''['' # b"
    then have "x # xs = (x # a) @ CHR ''['' # b" by simp
    then show "CHR '']'' \<notin> set b" by (rule Cons.prems)
  qed
  have "matchHere rx_section (x # xs) = None"
  proof (cases "x = CHR ''[''")
    case True
    then have "x # xs = [] @ CHR ''['' # xs" by simp
    then have "CHR '']'' \<notin> set xs" by (rule Cons.prems)
    then show ?thesis unfolding rx_section_def by (rule lit_star_lit_none)
  next
    case False
    then show ?thesis by (simp add: rx_section_def)
  qed
  then show ?case using ih by simp
qed

text \<open>
  The section pattern matches a line (without a line feed) exactly when the line has a
  \<open>[\<close> and a \<open>]\<close> somewhere after it.
\<close>

lemma greedy_Some_drop:
  "greedy p k s = Some (c, r) \<Longrightarrow> \<exists>n \<le> length s. k (drop n s) = Some r"
proof (induction s arbitrary: c)
  case Nil
  then show ?case by auto
next
  case (Cons x xs)
  show ?case
  proof (cases "p x \<and> greedy p k xs \<noteq> None")
    case True
    then obtain c' r' where g: "greedy p k xs = Some (c', r')" by auto
    with Cons.prems True have "r' = r" by simp
    with g have "greedy p k xs = Some (c', r)" by simp
    from Cons.IH [OF this] obtain n where "n \<le> length xs" "k (drop n xs) = Some r" by blast
    then have "Suc n \<le> length (x # xs) \<and> k (drop (Suc n) (x # xs)) = Some r" by simp
    then show ?thesis by blast
  next
    case False
    with Cons.prems have "k (x # xs) = Some r"
      by (cases "greedy p k xs") (auto split: if_splits)
    then have "0 \<le> length (x # xs) \<and> k (drop 0 (x # xs)) = Some r" by simp
    then show ?thesis by blast
  qed
qed

lemma greedy_Some_if:
  "n \<le> length (takeWhile p s) \<Longrightarrow> k (drop n s) \<noteq> None \<Longrightarrow> greedy p k s \<noteq> None"
proof (induction s arbitrary: n)
  case Nil
  then show ?case by auto
next
  case (Cons x xs)
  show ?case
  proof (cases n)
    case 0
    then show ?thesis using Cons.prems by (auto split: option.splits)
  next
    case (Suc m)
    with Cons.prems have px: "p x" and m: "m \<le> length (takeWhile p xs)"
      by (auto split: if_splits)
    have "k (drop m xs) \<noteq> None" using Cons.prems Suc by simp
    with m have "greedy p k xs \<noteq> None" by (rule Cons.IH)
    then show ?thesis using px by (auto split: option.splits)
  qed
qed

lemma matchHere_section_iff:
  assumes "CHR 0x0A \<notin> set b"
  shows "matchHere rx_section (x # b) \<noteq> None \<longleftrightarrow> x = CHR ''['' \<and> CHR '']'' \<in> set b"
proof
  assume m: "matchHere rx_section (x # b) \<noteq> None"
  then have x: "x = CHR ''[''" by (auto simp: rx_section_def split: if_splits)
  from m x obtain c r where "greedy (inCls Dot) (matchHere [Lit (CHR '']'')]) b = Some (c, r)"
    by (auto simp: rx_section_def)
  from greedy_Some_drop [OF this] obtain n where "matchHere [Lit (CHR '']'')] (drop n b) = Some r"
    by blast
  then have "CHR '']'' \<in> set (drop n b)" by (cases "drop n b") (auto split: if_splits)
  then show "x = CHR ''['' \<and> CHR '']'' \<in> set b" using x by (auto dest: in_set_dropD)
next
  assume a: "x = CHR ''['' \<and> CHR '']'' \<in> set b"
  then obtain u v where b: "b = u @ CHR '']'' # v" by (auto simp: in_set_conv_decomp)
  have t: "takeWhile (inCls Dot) b = b" using assms by (induction b) auto
  have "matchHere [Lit (CHR '']'')] (drop (length u) b) \<noteq> None" by (simp add: b)
  moreover have "length u \<le> length (takeWhile (inCls Dot) b)" unfolding t by (simp add: b)
  ultimately have "greedy (inCls Dot) (matchHere [Lit (CHR '']'')]) b \<noteq> None"
    by (rule greedy_Some_if [rotated])
  then show "matchHere rx_section (x # b) \<noteq> None" using a by (auto simp: rx_section_def)
qed

lemma Match_section_iff:
  "CHR 0x0A \<notin> set t \<Longrightarrow>
   MatchString rx_section t \<longleftrightarrow> (\<exists>a b. t = a @ CHR ''['' # b \<and> CHR '']'' \<in> set b)"
proof (induction t)
  case Nil
  then show ?case by (simp add: MatchString_def rx_section_def)
next
  case (Cons x xs)
  have m: "matchHere rx_section (x # xs) \<noteq> None \<longleftrightarrow> x = CHR ''['' \<and> CHR '']'' \<in> set xs"
    using Cons.prems by (intro matchHere_section_iff) simp
  have ih: "MatchString rx_section xs \<longleftrightarrow> (\<exists>a b. xs = a @ CHR ''['' # b \<and> CHR '']'' \<in> set b)"
    using Cons by simp
  have f: "MatchString rx_section (x # xs) \<longleftrightarrow>
             matchHere rx_section (x # xs) \<noteq> None \<or> MatchString rx_section xs"
    by (auto simp: MatchString_def split: option.splits)
  have d: "(\<exists>a b. x # xs = a @ CHR ''['' # b \<and> CHR '']'' \<in> set b) \<longleftrightarrow>
           (x = CHR ''['' \<and> CHR '']'' \<in> set xs) \<or> (\<exists>a b. xs = a @ CHR ''['' # b \<and> CHR '']'' \<in> set b)"
    (is "?L \<longleftrightarrow> ?A \<or> ?B")
  proof
    assume ?L
    then obtain a b where e: "x # xs = a @ CHR ''['' # b" "CHR '']'' \<in> set b" by blast
    show "?A \<or> ?B"
    proof (cases a)
      case Nil
      then show ?thesis using e by auto
    next
      case (Cons y ys)
      then have "xs = ys @ CHR ''['' # b" using e by simp
      then show ?thesis using e(2) by blast
    qed
  next
    assume "?A \<or> ?B"
    then show ?L
    proof
      assume ?A
      then have "x # xs = [] @ CHR ''['' # xs \<and> CHR '']'' \<in> set xs" by simp
      then show ?L by blast
    next
      assume ?B
      then obtain a b where "xs = a @ CHR ''['' # b" "CHR '']'' \<in> set b" by blast
      then have "x # xs = (x # a) @ CHR ''['' # b \<and> CHR '']'' \<in> set b" by simp
      then show ?L by blast
    qed
  qed
  show ?case unfolding f m ih d ..
qed

text \<open>
  When the rest of the pattern matches after a run of the class but after no longer run,
  the star gives back to there. So the colon pattern, whose key class has the colon in
  it, takes for the key all the text before the last colon.
\<close>

lemma greedy_exact:
  assumes "list_all p a" and "k b = Some r"
    and "\<And>n. 0 < n \<Longrightarrow> n \<le> length b \<Longrightarrow> k (drop n b) = None"
  shows "greedy p k (a @ b) = Some (a, r)"
  using assms(1)
proof (induction a)
  case Nil
  show ?case
  proof (cases b)
    case Nil
    then show ?thesis using assms(2) by simp
  next
    case (Cons x xs)
    have "greedy p k xs = None"
    proof (rule greedy_none)
      fix n assume "n \<le> length xs"
      then show "k (drop n xs) = None" using assms(3) [of "Suc n"] Cons by simp
    qed
    then show ?thesis using assms(2) Cons by simp
  qed
next
  case (Cons y a)
  then show ?case by simp
qed

lemma colon_splits_at_last_colon:
  assumes "CHR ''='' \<notin> set k" and "CHR '':'' \<notin> set v" and "CHR 0x0A \<notin> set v"
  shows "FindStringSubmatch rx_colon_property (k @ CHR '':'' # v) = [k @ CHR '':'' # v, k, v]"
proof -
  let ?K = "matchHere [Lit (CHR '':''), CapStar Dot]"
  have d: "takeWhile (inCls Dot) v = v" using assms(3) by (induction v) auto
  have 1: "list_all (inCls (NotCh (CHR ''=''))) k" using assms(1) by (induction k) auto
  have 2: "?K (CHR '':'' # v) = Some (CHR '':'' # v, [v])" by (simp add: dot_rest d)
  have 3: "?K (drop n (CHR '':'' # v)) = None" if "0 < n" for n
  proof -
    from that obtain m where "n = Suc m" by (cases n) auto
    then show ?thesis using lit_none [OF assms(2), of "[CapStar Dot]" m] by simp
  qed
  have "greedy (inCls (NotCh (CHR ''=''))) ?K (k @ CHR '':'' # v) = Some (k, CHR '':'' # v, [v])"
    using 1 2 3 by (rule greedy_exact)
  then have "matchHere rx_colon_property (k @ CHR '':'' # v) = Some (k @ CHR '':'' # v, [k, v])"
    by (simp add: rx_colon_property_def)
  then show ?thesis by (cases "k @ CHR '':'' # v") simp_all
qed

text \<open>A match returns the matched text and one text for each group.\<close>

lemma greedy_Some_rest: "greedy p k s = Some (c, r) \<Longrightarrow> \<exists>u. k u = Some r"
  by (induction s arbitrary: c) (auto split: if_splits option.splits)

lemma matchHere_groups: "matchHere r s = Some (m, cs) \<Longrightarrow> length cs = groups r"
proof (induction r arbitrary: s m cs)
  case Nil
  then show ?case by simp
next
  case (Cons n r)
  show ?case
  proof (cases n)
    case (Lit c)
    then show ?thesis using Cons by (auto split: list.splits if_splits)
  next
    case (CapStar k)
    with Cons.prems obtain c m' cs' where
      g: "greedy (inCls k) (matchHere r) s = Some (c, m', cs')" and cs: "cs = c # cs'"
      by auto
    from greedy_Some_rest [OF g] obtain u where "matchHere r u = Some (m', cs')" ..
    then have "length cs' = groups r" by (rule Cons.IH)
    then show ?thesis using cs CapStar by simp
  qed
qed

lemma Find_length:
  "FindStringSubmatch r s \<noteq> [] \<Longrightarrow> length (FindStringSubmatch r s) = Suc (groups r)"
  by (induction s) (auto split: option.splits dest: matchHere_groups)

lemma Match_length:
  "MatchString rx_section s \<Longrightarrow> length (FindStringSubmatch rx_section s) = 2"
  "MatchString rx_property s \<Longrightarrow> length (FindStringSubmatch rx_property s) = 3"
  "MatchString rx_colon_property s \<Longrightarrow> length (FindStringSubmatch rx_colon_property s) = 3"
  unfolding MatchString_def
  by (drule Find_length, simp add: rx_section_def rx_property_def rx_colon_property_def)+

lemma Match_propRx_length:
  "MatchString (propRx ic) s \<Longrightarrow> length (FindStringSubmatch (propRx ic) s) = 3"
  by (simp add: propRx_def Match_length split: if_splits)

section \<open>What \<open>Add\<close> and the loop of \<open>parse\<close> do to the store\<close>

lemma options_Add [simp]: "options (Add T ic s p v) = options ic"
  by (simp add: Add_def Let_def)

lemma normalise_Add [simp]: "normalise T (Add T ic s p v) = normalise T ic"
  by (rule ext) (simp add: normalise_def)

lemma sections_Add:
  "sections (Add T ic s p v) k =
     (if k = normalise T ic s
      then Some ((case sections ic k of None \<Rightarrow> Map.empty | Some m \<Rightarrow> m)
                   (normalise T ic p \<mapsto> newNilableString v))
      else sections ic k)"
  by (simp add: Add_def Let_def)

lemma PropertyExists_Add:
  "PropertyExists T (Add T ic s p v) s' p' \<longleftrightarrow>
     (normalise T ic s' = normalise T ic s \<and> normalise T ic p' = normalise T ic p)
     \<or> PropertyExists T ic s' p'"
  by (auto simp: PropertyExists_def findSection_def sections_Add Let_def split: option.splits)


lemma Value_Add:
  "normalise T ic s' = normalise T ic s \<Longrightarrow> normalise T ic p' = normalise T ic p \<Longrightarrow>
   Value T (Add T ic s p v) s' p' = Inr v"
  by (simp add: Value_def findSection_def sections_Add Let_def newNilableString_def
      Set_ns_def String_ns_def)

lemma parse_line_result:
  "parse_line T ic sec n l = Inr (ic', sec') \<Longrightarrow>
     (ic' = ic \<or> (\<exists>k v. ic' = Add T ic sec k v \<and> sec' = sec))"
  unfolding parse_line_def Let_def
  by (simp split: if_splits) blast+


lemma allSet_Add: "allSet ic \<Longrightarrow> allSet (Add T ic s p v)"
  unfolding allSet_def sections_Add
  by (auto simp: newNilableString_def Set_ns_def IsSet_def split: if_splits option.splits)

lemma allSet_parse_line: "allSet ic \<Longrightarrow> parse_line T ic sec n l = Inr (ic', sec') \<Longrightarrow> allSet ic'"
  by (drule parse_line_result) (auto simp: allSet_Add)

lemma allSet_parse_loop: "allSet ic \<Longrightarrow> parse_loop T ic sec n ls = Inr ic' \<Longrightarrow> allSet ic'"
proof (induction ls arbitrary: ic sec n)
  case Nil
  then show ?case by simp
next
  case (Cons l ls)
  then show ?case
    by (auto split: sum.splits prod.splits dest: allSet_parse_line)
qed

lemma allSet_AddAll: "allSet ic \<Longrightarrow> allSet (AddAll T ic xs)"
  unfolding AddAll_def
  by (induction xs arbitrary: ic) (auto simp: allSet_Add)

lemma parse_loop_prefix_error:
  "parse_loop T ic sec n xs = Inl e \<Longrightarrow> parse_loop T ic sec n (xs @ ys) = Inl e"
  by (induction xs arbitrary: ic sec n) (auto split: sum.splits prod.splits)

text \<open>What the loop does with a property line, with a line that is no section header,
  and with a blank line or a comment.\<close>

lemma parse_line_property:
  assumes "propertyLine ic l"
  shows "parse_line T ic sec n l =
           (if sec = GLOBAL_SECTION \<and> \<not> AllowGlobalSection (options ic)
            then Inl (PropertyOutsideSection n)
            else if propertyValue ic l \<noteq> [] \<or> \<not> DiscardPropertiesWithNoValue (options ic)
            then Inr (Add T ic sec (propertyKey ic l) (propertyValue ic l), sec)
            else Inr (ic, sec))"
proof -
  from assms have a: "TrimSpace l \<noteq> []" "\<not> HasPrefix (TrimSpace l) (CommentStart (options ic))"
    "\<not> MatchString rx_section (stripInlineComments ic (TrimSpace l))"
    "MatchString (propRx ic) (stripInlineComments ic (TrimSpace l))"
    by (simp_all add: propertyLine_def blankOrComment_def lineText_def)
  note b = Match_propRx_length [OF a(4)]
  show ?thesis
    using a b unfolding parse_line_def propertyKey_def propertyValue_def lineText_def
    by (simp add: Let_def propRx_def)
qed







lemma parse_line_skip:
  "blankOrComment ic x \<Longrightarrow> TolerateBlankLines (options ic) \<Longrightarrow>
   parse_line T ic sec n x = Inr (ic, sec)"
  by (auto simp: parse_line_def blankOrComment_def Let_def)

section \<open>Lemmas on the library functions\<close>

lemma strip_slice: "take (length v - 1 - 1) (drop 1 v) = butlast (tl v)"
  by (cases v) (simp_all add: butlast_conv_take)

lemma find_case:
  "(case find P xs of Some r \<Rightarrow> a | None \<Rightarrow> b) = (if \<exists>r \<in> set xs. P r then a else b)"
  by (induction xs) auto

lemma upper_examples:
  "ToUpper T ''true'' = ''TRUE''" "ToUpper T ''TRUE'' = ''TRUE''" "ToUpper T ''True'' = ''TRUE''"
  "ToUpper T ''False'' = ''FALSE''" "ToUpper T ''1'' = ''1''"
  by code_simp+

lemma set_TrimLeft: "set (TrimLeft s) \<subseteq> set s"
proof (induction s rule: TrimLeft.induct)
  case (1 s)
  show ?case
  proof (cases "leadingSpace s = 0")
    case True
    then show ?thesis by (simp add: TrimLeft.simps)
  next
    case False
    then have "set (TrimLeft (drop (leadingSpace s) s)) \<subseteq> set (drop (leadingSpace s) s)"
      by (rule 1)
    moreover have "TrimLeft s = TrimLeft (drop (leadingSpace s) s)"
      using False by (simp add: TrimLeft.simps)
    ultimately show ?thesis using set_drop_subset [of "leadingSpace s" s] by auto
  qed
qed

lemma set_TrimRight: "set (TrimRight s) \<subseteq> set s"
proof (induction s rule: TrimRight.induct)
  case (1 s)
  show ?case
  proof (cases "trailingSpace s = 0")
    case True
    then show ?thesis by (simp add: TrimRight.simps)
  next
    case False
    then have "set (TrimRight (take (length s - trailingSpace s) s))
                 \<subseteq> set (take (length s - trailingSpace s) s)"
      by (rule 1)
    moreover have "TrimRight s = TrimRight (take (length s - trailingSpace s) s)"
      using False by (simp add: TrimRight.simps)
    ultimately show ?thesis using set_take_subset [of "length s - trailingSpace s" s] by auto
  qed
qed

lemma set_TrimSpace: "set (TrimSpace s) \<subseteq> set s"
  unfolding TrimSpace_def using set_TrimLeft [of s] set_TrimRight [of "TrimLeft s"] by blast

lemma takeWhile_Dot: "CHR 0x0A \<notin> set s \<Longrightarrow> takeWhile (inCls Dot) s = s"
  by (induction s) auto

lemma default_fields:
  "CaseSensitive DefaultIniOptions" "CommentStart DefaultIniOptions = '';''"
  "TrimProperties DefaultIniOptions" "TolerateBlankLines DefaultIniOptions"
  "AllowGlobalSection DefaultIniOptions" "DiscardPropertiesWithNoValue DefaultIniOptions"
  "\<not> IgnoreUnparseable DefaultIniOptions" "\<not> AllowInlineComments DefaultIniOptions"
  "\<not> StripEnclosingQuotes DefaultIniOptions" "\<not> UseColonAssignment DefaultIniOptions"
  by (simp_all add: DefaultIniOptions_def)

lemma default_property_line:
  assumes o: "options ic = DefaultIniOptions"
    and nl: "CHR 0x0A \<notin> set l"
    and eq: "CHR ''='' \<in> set (TrimSpace l)"
    and nc: "\<not> HasPrefix (TrimSpace l) '';''"
    and ns: "\<not> (\<exists>a b. TrimSpace l = a @ CHR ''['' # b \<and> CHR '']'' \<in> set b)"
  shows "propertyLine ic l"
    and "propertyKey ic l = TrimSpace (takeWhile (\<lambda>c. c \<noteq> CHR ''='') (TrimSpace l))"
    and "propertyValue ic l = TrimSpace (tl (dropWhile (\<lambda>c. c \<noteq> CHR ''='') (TrimSpace l)))"
proof -
  let ?t = "TrimSpace l"
  let ?rest = "tl (dropWhile (\<lambda>c. c \<noteq> CHR ''='') ?t)"
  have lt: "lineText ic l = ?t"
    by (simp add: lineText_def stripInlineComments_def o default_fields)
  have rx: "propRx ic = rx_property" by (simp add: propRx_def o default_fields)
  have sec: "\<not> MatchString rx_section ?t"
    unfolding MatchString_def using ns Find_section_none [of ?t] by blast
  have f: "FindStringSubmatch rx_property ?t =
             [takeWhile (\<lambda>x. x \<noteq> CHR ''='') ?t @ CHR ''='' # takeWhile (inCls Dot) ?rest,
              takeWhile (\<lambda>x. x \<noteq> CHR ''='') ?t, takeWhile (inCls Dot) ?rest]"
    by (rule Find_property [OF eq])
  have "set ?rest \<subseteq> set ?t"
    by (metis (no_types, lifting) dropWhile_eq_Nil_conv list.sel(2) list.set_sel(2) set_dropWhileD subsetI)
  then have "CHR 0x0A \<notin> set ?rest" using nl set_TrimSpace [of l] by blast
  then have d: "takeWhile (inCls Dot) ?rest = ?rest" by (rule takeWhile_Dot)
  have ne: "?t \<noteq> []" using eq by auto
  show "propertyLine ic l"
    using ne nc sec f
    by (simp add: propertyLine_def blankOrComment_def lt rx o default_fields MatchString_def)
  show "propertyKey ic l = TrimSpace (takeWhile (\<lambda>c. c \<noteq> CHR ''='') ?t)"
    by (simp add: propertyKey_def lt rx f o default_fields)
  show "propertyValue ic l = TrimSpace ?rest"
    by (simp add: propertyValue_def lt rx f d o default_fields stripQuotes_def)
qed

text \<open>\<open>Index\<close> finds the first occurrence, and the head of \<open>Split\<close> is the text before it.\<close>

lemma Index_Some:
  "Index s sep = Some i \<Longrightarrow> HasPrefix (drop i s) sep \<and> (\<forall>j<i. \<not> HasPrefix (drop j s) sep)"
proof (induction s arbitrary: i)
  case Nil
  then show ?case by (auto split: if_splits simp: HasPrefix_def)
next
  case (Cons c s)
  show ?case
  proof (cases "HasPrefix (c # s) sep")
    case True
    then show ?thesis using Cons.prems by simp
  next
    case False
    with Cons.prems obtain i' where i: "Index s sep = Some i'" "i = Suc i'" by auto
    have ih: "HasPrefix (drop i' s) sep \<and> (\<forall>j<i'. \<not> HasPrefix (drop j s) sep)"
      using i(1) by (rule Cons.IH)
    have "\<not> HasPrefix (drop j (c # s)) sep" if "j < i" for j
      using that False ih i(2) by (cases j) auto
    then show ?thesis using ih i(2) by simp
  qed
qed


text \<open>A result that is an error, in a form that can be evaluated.\<close>

lemma is_error: "(case r of Inl e \<Rightarrow> e = x | Inr a \<Rightarrow> False) \<Longrightarrow> r = Inl x"
  by (cases r) simp_all

section \<open>The tokens of the scanner\<close>

text \<open>No token holds a line feed. When every line of the file is shorter than
  \<open>MaxScanTokenSize\<close>, the tokens are the lines without their carriage returns; a file
  that starts with a longer line has no token. The tokens of a file that ends with a line
  feed are the first tokens of the file with more content after it.\<close>

lemma fileLines_Nil: "fileLines [] = []"
  by (simp add: fileLines.simps)


lemma set_dropCR: "set (dropCR x) \<subseteq> set x"
  by (auto simp: dropCR_def dest: in_set_butlastD)



lemma Scan_too_long:
  "MaxScanTokenSize \<le> int (length (takeWhile (\<lambda>c. c \<noteq> CHR 0x0A) data)) \<Longrightarrow> Scan data = []"
  by (subst Scan_def, subst fileLines.simps) (auto simp: MaxScanTokenSize_def)

lemma fileLines_append:
  "data = [] \<or> last data = CHR 0x0A \<Longrightarrow> fileLines (data @ ys) = fileLines data @ fileLines ys"
proof (induction data rule: fileLines.induct)
  case (1 data)
  show ?case
  proof (cases "data = []")
    case True
    then show ?thesis by (simp add: fileLines_Nil)
  next
    case False
    let ?p = "\<lambda>c. c \<noteq> CHR 0x0A"
    let ?l = "takeWhile ?p data"
    let ?r = "drop (Suc (length ?l)) data"
    from 1(2) False have l: "last data = CHR 0x0A" by simp
    then have i: "CHR 0x0A \<in> set data" using False last_in_set [of data] by simp
    then have t: "takeWhile ?p (data @ ys) = ?l" by (intro takeWhile_append1) auto
    have "dropWhile ?p data \<noteq> []" using i by (simp add: dropWhile_eq_Nil_conv)
    then have "0 < length (dropWhile ?p data)" by simp
    moreover have "length data = length ?l + length (dropWhile ?p data)"
      using takeWhile_dropWhile_id [of ?p data] length_append [of ?l "dropWhile ?p data"] by simp
    ultimately have n: "length ?l < length data" by simp
    then have d: "drop (Suc (length ?l)) (data @ ys) = ?r @ ys" by simp
    have "?r = [] \<or> last ?r = CHR 0x0A" using l by (cases "?r = []") (simp_all add: last_drop)
    then have ih: "fileLines (?r @ ys) = fileLines ?r @ fileLines ys"
      using 1(1) [OF False] by simp
    have "fileLines (data @ ys) = ?l # fileLines (?r @ ys)"
      using False by (subst fileLines.simps) (simp add: t d del: drop_append)
    also have "\<dots> = (?l # fileLines ?r) @ fileLines ys" by (simp add: ih)
    also have "?l # fileLines ?r = fileLines data" using False by (subst (2) fileLines.simps) simp
    finally show ?thesis .
  qed
qed

lemma Scan_append:
  "data = [] \<or> last data = CHR 0x0A \<Longrightarrow> \<exists>zs. Scan (data @ ys) = Scan data @ zs"
proof -
  assume "data = [] \<or> last data = CHR 0x0A"
  then have f: "fileLines (data @ ys) = fileLines data @ fileLines ys" by (rule fileLines_append)
  show ?thesis
  proof (cases "\<forall>x \<in> set (fileLines data). int (length x) < MaxScanTokenSize")
    case True
    then show ?thesis unfolding Scan_def f
      by (simp add: takeWhile_append takeWhile_eq_all_conv [THEN iffD2])
  next
    case False
    then show ?thesis unfolding Scan_def f by (auto simp: takeWhile_append)
  qed
qed

section \<open>Property lines in the words of the specification\<close>

























section \<open>Property lines under the default options\<close>

text \<open>
  Under the default options, take a token (it has no line feed) whose trimmed text holds
  a \<open>=\<close>, does not start with the comment marker \<open>;\<close>, holds no \<open>[\<close> with a \<open>]\<close> somewhere
  after it, and has a value (the text after its first \<open>=\<close>) that is not blank. The loop
  stores it in any current section: afterwards \<open>PropertyExists\<close> holds for that section and
  the trimmed key (the text before the first \<open>=\<close>), and \<open>Value\<close> returns exactly the
  trimmed value.
\<close>

lemma property_line_round_trip:
  assumes "options ic = DefaultIniOptions"
    and "CHR 0x0A \<notin> set l"
    and "CHR ''='' \<in> set (TrimSpace l)"
    and "\<not> HasPrefix (TrimSpace l) '';''"
    and "\<not> (\<exists>a b. TrimSpace l = a @ CHR ''['' # b \<and> CHR '']'' \<in> set b)"
    and "TrimSpace (tl (dropWhile (\<lambda>c. c \<noteq> CHR ''='') (TrimSpace l))) \<noteq> []"
  shows "\<exists>ic'. parse_loop T ic sec n [l] = Inr ic' \<and>
           PropertyExists T ic' sec (TrimSpace (takeWhile (\<lambda>c. c \<noteq> CHR ''='') (TrimSpace l))) \<and>
           Value T ic' sec (TrimSpace (takeWhile (\<lambda>c. c \<noteq> CHR ''='') (TrimSpace l)))
             = Inr (TrimSpace (tl (dropWhile (\<lambda>c. c \<noteq> CHR ''='') (TrimSpace l))))"
proof -
  let ?k = "TrimSpace (takeWhile (\<lambda>c. c \<noteq> CHR ''='') (TrimSpace l))"
  let ?v = "TrimSpace (tl (dropWhile (\<lambda>c. c \<noteq> CHR ''='') (TrimSpace l)))"
  note p = default_property_line [OF assms(1-5)]
  have "parse_line T ic sec (Suc n) l = Inr (Add T ic sec ?k ?v, sec)"
    using assms(6) by (simp add: parse_line_property [OF p(1)] p(2,3) assms(1) default_fields)
  then have 1: "parse_loop T ic sec n [l] = Inr (Add T ic sec ?k ?v)" by simp
  have "PropertyExists T (Add T ic sec ?k ?v) sec ?k \<and> Value T (Add T ic sec ?k ?v) sec ?k = Inr ?v"
    by (simp add: PropertyExists_Add Value_Add)
  then show ?thesis using 1 by blast
qed

text \<open>
  So it is for the constructor on a file of that one line, when the line is shorter than
  \<open>MaxScanTokenSize\<close>: the token is the line without the carriage return at its end,
  and the property is found under the empty section name.
\<close>

lemma property_file_round_trip:
  assumes "int (length l) < MaxScanTokenSize" and "l \<noteq> []"
    and "CHR 0x0A \<notin> set l"
    and "CHR ''='' \<in> set (TrimSpace (dropCR l))"
    and "\<not> HasPrefix (TrimSpace (dropCR l)) '';''"
    and "\<not> (\<exists>a b. TrimSpace (dropCR l) = a @ CHR ''['' # b \<and> CHR '']'' \<in> set b)"
    and "TrimSpace (tl (dropWhile (\<lambda>c. c \<noteq> CHR ''='') (TrimSpace (dropCR l)))) \<noteq> []"
  shows "\<exists>ic'. NewIniConfigFromFile T (Some l) = Inr ic' \<and>
           PropertyExists T ic' GLOBAL_SECTION
             (TrimSpace (takeWhile (\<lambda>c. c \<noteq> CHR ''='') (TrimSpace (dropCR l)))) \<and>
           Value T ic' GLOBAL_SECTION
             (TrimSpace (takeWhile (\<lambda>c. c \<noteq> CHR ''='') (TrimSpace (dropCR l))))
             = Inr (TrimSpace (tl (dropWhile (\<lambda>c. c \<noteq> CHR ''='') (TrimSpace (dropCR l)))))"
proof -
  have t: "takeWhile (\<lambda>c. c \<noteq> CHR 0x0A) l = l"
    using assms(3) by (auto simp: takeWhile_eq_all_conv)
  have "fileLines l = takeWhile (\<lambda>c. c \<noteq> CHR 0x0A) l
          # fileLines (drop (Suc (length (takeWhile (\<lambda>c. c \<noteq> CHR 0x0A) l))) l)"
    using assms(2) by (subst fileLines.simps) simp
  also have "\<dots> = [l]" unfolding t by (simp add: fileLines_Nil)
  finally have f: "fileLines l = [l]" .
  have s: "Scan l = [dropCR l]" using assms(1) by (simp add: Scan_def f)
  have n: "CHR 0x0A \<notin> set (dropCR l)" using assms(3) set_dropCR [of l] by auto
  have c: "TrimSpace (CommentStart DefaultIniOptions) \<noteq> []" by code_simp
  have "NewIniConfigFromFile T (Some l)
          = parse_loop T (emptyConfig DefaultIniOptions) GLOBAL_SECTION 0 [dropCR l]"
    using c
    by (simp add: NewIniConfigFromFile_def NewIniConfigFromFileWithOptions_def parse_def s
        emptyConfig_def)
  moreover have "options (emptyConfig DefaultIniOptions) = DefaultIniOptions"
    by (simp add: emptyConfig_def)
  ultimately show ?thesis
    using property_line_round_trip [OF _ n assms(4-7), of "emptyConfig DefaultIniOptions" T
        GLOBAL_SECTION 0]
    by simp
qed

text \<open>
  Claim C1, at the inputs where the code departs from it. The file of the one line
  \<open>key=a[b]\<close>, under the default options: the parse succeeds, the line is taken for the
  header of a section \<open>b\<close> (the section pattern is tried first and is not anchored, so it
  matches the \<open>[b]\<close> inside the line), no property \<open>key\<close> is stored and \<open>Value\<close> returns
  the error of a missing section; the property of a next line \<open>x=y\<close> is stored in the
  section \<open>b\<close>. And the file of one line \<open>k=vv...\<close> with \<open>MaxScanTokenSize\<close> bytes of
  value: the scanner yields no token, \<open>parse\<close> returns without an error and nothing is
  stored.
\<close>

theorem bracketed_value_not_stored:
  "FindStringSubmatch rx_section ''key=a[b]'' = [''[b]'', ''b''] \<and>
   (case parse_line asciiTables (emptyConfig DefaultIniOptions) GLOBAL_SECTION 1 ''key=a[b]'' of
      Inl e \<Rightarrow> False | Inr (ic', section') \<Rightarrow> section' = ''b'') \<and>
   \<not> isl (NewIniConfigFromFile asciiTables (Some ''key=a[b]'')) \<and>
   \<not> PropertyExists asciiTables (projr (NewIniConfigFromFile asciiTables (Some ''key=a[b]'')))
       GLOBAL_SECTION ''key'' \<and>
   Value asciiTables (projr (NewIniConfigFromFile asciiTables (Some ''key=a[b]'')))
     GLOBAL_SECTION ''key'' = Inl (NoSuchSection GLOBAL_SECTION) \<and>
   \<not> isl (NewIniConfigFromFile asciiTables (Some (''key=a[b]'' @ [CHR 0x0A] @ ''x=y''))) \<and>
   Value asciiTables
     (projr (NewIniConfigFromFile asciiTables (Some (''key=a[b]'' @ [CHR 0x0A] @ ''x=y''))))
     ''b'' ''x'' = Inr ''y'' \<and>
   \<not> isl (NewIniConfigFromFile asciiTables
            (Some (''k='' @ replicate (nat MaxScanTokenSize) (CHR ''v'')))) \<and>
   \<not> PropertyExists asciiTables
       (projr (NewIniConfigFromFile asciiTables
                 (Some (''k='' @ replicate (nat MaxScanTokenSize) (CHR ''v'')))))
       GLOBAL_SECTION ''k''"
proof -
  let ?long = "''k='' @ replicate (nat MaxScanTokenSize) (CHR ''v'')"
  have 1: "FindStringSubmatch rx_section ''key=a[b]'' = [''[b]'', ''b'']"
    "case parse_line asciiTables (emptyConfig DefaultIniOptions) GLOBAL_SECTION 1 ''key=a[b]'' of
       Inl e \<Rightarrow> False | Inr (ic', section') \<Rightarrow> section' = ''b''"
    by code_simp+
  have 2: "\<not> isl (NewIniConfigFromFile asciiTables (Some ''key=a[b]''))"
    "\<not> PropertyExists asciiTables (projr (NewIniConfigFromFile asciiTables (Some ''key=a[b]'')))
       GLOBAL_SECTION ''key''"
    "Value asciiTables (projr (NewIniConfigFromFile asciiTables (Some ''key=a[b]'')))
       GLOBAL_SECTION ''key'' = Inl (NoSuchSection GLOBAL_SECTION)"
    by code_simp+
  have 3: "\<not> isl (NewIniConfigFromFile asciiTables (Some (''key=a[b]'' @ [CHR 0x0A] @ ''x=y'')))"
    "Value asciiTables
       (projr (NewIniConfigFromFile asciiTables (Some (''key=a[b]'' @ [CHR 0x0A] @ ''x=y''))))
       ''b'' ''x'' = Inr ''y''"
    by code_simp+
  have s: "Scan ?long = []" by (rule Scan_too_long) (simp add: MaxScanTokenSize_def)
  have c: "TrimSpace (CommentStart DefaultIniOptions) \<noteq> []" by code_simp
  have e: "NewIniConfigFromFile asciiTables (Some ?long) = Inr (emptyConfig DefaultIniOptions)"
    using c s
    by (simp add: NewIniConfigFromFile_def NewIniConfigFromFileWithOptions_def parse_def
        emptyConfig_def)
  have "\<not> PropertyExists asciiTables (emptyConfig DefaultIniOptions) GLOBAL_SECTION ''k''"
    by code_simp
  then have 4: "\<not> isl (NewIniConfigFromFile asciiTables (Some ?long))"
    "\<not> PropertyExists asciiTables (projr (NewIniConfigFromFile asciiTables (Some ?long)))
       GLOBAL_SECTION ''k''"
    unfolding e by simp_all
  show ?thesis using 1 2 3 4 by blast
qed

section \<open>The separator of a property line\<close>

text \<open>
  Claim C2, at the input where the code departs from it. With \<open>UseColonAssignment\<close>, the
  line \<open>a:b:c\<close> parses, and the property stored is \<open>a:b\<close> with the value \<open>c\<close>; there is no
  property \<open>a\<close>. The colon pattern splits the line at its last colon
  (\<open>colon_splits_at_last_colon\<close>): its key class is \<open>[^=]\<close>, which a colon is in, and the
  star is greedy. The equals pattern, whose key class leaves the separator out, splits
  \<open>a=b=c\<close> at the first \<open>=\<close> (\<open>Find_property\<close>). The colon pattern does not match
  \<open>key=value\<close>, which has no colon; in \<open>a=b:c\<close> it matches \<open>b:c\<close>.
\<close>

theorem colon_value_with_colon:
  "\<not> isl (NewIniConfigFromFileWithOptions asciiTables (Some ''a:b:c'')
             (Some (DefaultIniOptions\<lparr>UseColonAssignment := True\<rparr>))) \<and>
   Value asciiTables
     (projr (NewIniConfigFromFileWithOptions asciiTables (Some ''a:b:c'')
               (Some (DefaultIniOptions\<lparr>UseColonAssignment := True\<rparr>))))
     GLOBAL_SECTION ''a:b'' = Inr ''c'' \<and>
   \<not> PropertyExists asciiTables
     (projr (NewIniConfigFromFileWithOptions asciiTables (Some ''a:b:c'')
               (Some (DefaultIniOptions\<lparr>UseColonAssignment := True\<rparr>))))
     GLOBAL_SECTION ''a'' \<and>
   FindStringSubmatch rx_colon_property ''a:b:c'' = [''a:b:c'', ''a:b'', ''c''] \<and>
   FindStringSubmatch rx_property ''a=b=c'' = [''a=b=c'', ''a'', ''b=c''] \<and>
   FindStringSubmatch rx_colon_property ''key=value'' = [] \<and>
   FindStringSubmatch rx_colon_property ''a=b:c'' = [''b:c'', ''b'', ''c'']"
  by code_simp

section \<open>Strict booleans\<close>

text \<open>
  Claim C3. With \<open>UseGoBoolRules\<close> unset, \<open>ValueAsBool\<close> on a stored value \<open>v\<close> returns true
  when \<open>v\<close> equals \<open>StrictBoolTrue\<close>, else false when \<open>v\<close> equals \<open>StrictBoolFalse\<close>, else the
  error that carries \<open>v\<close> and the two strings as configured; the strings are compared as
  they are when \<open>StrictBoolCaseSensitive\<close> is set, and after \<open>ToUpper\<close> of all three
  otherwise. With the targets \<open>True\<close> and \<open>False\<close>, compared without case, the values
  \<open>true\<close> and \<open>TRUE\<close> convert to true and the value \<open>1\<close> is an error.
\<close>

theorem ValueAsBool_strict:
  "(\<not> UseGoBoolRules (options ic) \<and> Value T ic s p = Inr v \<longrightarrow>
      ValueAsBool T ic s p =
        (let up = (if StrictBoolCaseSensitive (options ic) then (\<lambda>x. x) else ToUpper T)
         in if up v = up (StrictBoolTrue (options ic)) then Inr True
            else if up v = up (StrictBoolFalse (options ic)) then Inr False
            else Inl (NoStrictBoolMatch s p v (StrictBoolTrue (options ic))
                        (StrictBoolFalse (options ic))))) \<and>
   (\<not> UseGoBoolRules (options ic) \<and> \<not> StrictBoolCaseSensitive (options ic) \<and>
    StrictBoolTrue (options ic) = ''True'' \<and> StrictBoolFalse (options ic) = ''False'' \<longrightarrow>
      (Value T ic s p = Inr ''true'' \<longrightarrow> ValueAsBool T ic s p = Inr True) \<and>
      (Value T ic s p = Inr ''TRUE'' \<longrightarrow> ValueAsBool T ic s p = Inr True) \<and>
      (Value T ic s p = Inr ''1'' \<longrightarrow>
         ValueAsBool T ic s p = Inl (NoStrictBoolMatch s p ''1'' ''True'' ''False'')))"
  by (simp add: ValueAsBool_def Let_def upper_examples)

theorem ValueAsBool_strict_witness:
  "ValueAsBool asciiTables
     (Add asciiTables
        (emptyConfig (DefaultIniOptions\<lparr>UseGoBoolRules := False, StrictBoolTrue := ''True'',
           StrictBoolFalse := ''False'', StrictBoolCaseSensitive := False\<rparr>))
        ''s'' ''b'' ''true'') ''s'' ''b'' = Inr True \<and>
   ValueAsBool asciiTables
     (Add asciiTables
        (emptyConfig (DefaultIniOptions\<lparr>UseGoBoolRules := False, StrictBoolTrue := ''yes'',
           StrictBoolFalse := ''no''\<rparr>))
        ''s'' ''b'' ''no'') ''s'' ''b'' = Inr False"
proof -
  let ?o1 = "DefaultIniOptions\<lparr>UseGoBoolRules := False, StrictBoolTrue := ''True'',
           StrictBoolFalse := ''False'', StrictBoolCaseSensitive := False\<rparr>"
  let ?o2 = "DefaultIniOptions\<lparr>UseGoBoolRules := False, StrictBoolTrue := ''yes'',
           StrictBoolFalse := ''no''\<rparr>"
  let ?ic1 = "Add asciiTables (emptyConfig ?o1) ''s'' ''b'' ''true''"
  let ?ic2 = "Add asciiTables (emptyConfig ?o2) ''s'' ''b'' ''no''"
  have h1: "\<not> UseGoBoolRules (options ?ic1)" "\<not> StrictBoolCaseSensitive (options ?ic1)"
    "StrictBoolTrue (options ?ic1) = ''True''" "StrictBoolFalse (options ?ic1) = ''False''"
    by (simp_all add: emptyConfig_def)
  have o2: "options ?ic2 = ?o2" by (simp add: emptyConfig_def)
  have u2: "\<not> UseGoBoolRules (options ?ic2)" unfolding o2 by simp
  have v1: "Value asciiTables ?ic1 ''s'' ''b'' = Inr ''true''" by code_simp
  have v2: "Value asciiTables ?ic2 ''s'' ''b'' = Inr ''no''" by code_simp
  have 1: "ValueAsBool asciiTables ?ic1 ''s'' ''b'' = Inr True"
    using ValueAsBool_strict [of ?ic1 asciiTables "''s''" "''b''" "''true''"] h1 v1
    by blast
  have "ValueAsBool asciiTables ?ic2 ''s'' ''b'' =
        (let up = (if StrictBoolCaseSensitive ?o2 then (\<lambda>x. x) else ToUpper asciiTables)
         in if up ''no'' = up (StrictBoolTrue ?o2) then Inr True
            else if up ''no'' = up (StrictBoolFalse ?o2) then Inr False
            else Inl (NoStrictBoolMatch ''s'' ''b'' ''no'' (StrictBoolTrue ?o2)
                        (StrictBoolFalse ?o2)))"
    using ValueAsBool_strict [of ?ic2 asciiTables "''s''" "''b''" "''no''"] u2 v2
    unfolding o2 by blast
  then have 2: "ValueAsBool asciiTables ?ic2 ''s'' ''b'' = Inr False"
    by (simp add: DefaultIniOptions_def)
  show ?thesis using 1 2 by blast
qed

section \<open>Failing fast\<close>

text \<open>
  Claim C4. A line that fails leaves the loop with its error, and the lines after it are
  not read: when the parse of some lines fails, the parse of these lines followed by any
  others fails with the same error, and so does the parse of a file that fails and ends
  with a line feed, whatever content follows it. The constructor then returns that error
  and no configuration. It checks the file, the options and the comment marker (which
  must not be empty, nor white space only) before it parses: when a check fails, it
  returns the error of that check whatever the content of the file is.
\<close>

theorem fail_fast:
  "(parse_line T ic sec (Suc n) l = Inl e \<longrightarrow> parse_loop T ic sec n (l # rest) = Inl e) \<and>
   (parse_loop T ic sec n xs = Inl e \<longrightarrow> parse_loop T ic sec n (xs @ ys) = Inl e) \<and>
   (parse T ic cf = Inl e \<and> last cf = CHR 0x0A \<longrightarrow> parse T ic (cf @ cf') = Inl e) \<and>
   (TrimSpace (CommentStart os) \<noteq> [] \<and> parse T \<lparr>sections = Map.empty, options = os\<rparr> cf = Inl e \<longrightarrow>
      NewIniConfigFromFileWithOptions T (Some cf) (Some os) = Inl e) \<and>
   NewIniConfigFromFileWithOptions T None opts = Inl NilFile \<and>
   NewIniConfigFromFileWithOptions T (Some cf) None = Inl NilOptions \<and>
   (TrimSpace (CommentStart os) = [] \<longrightarrow>
      NewIniConfigFromFileWithOptions T (Some cf) (Some os) = Inl EmptyCommentStart)"
proof -
  have 1: "parse T ic (cf @ cf') = Inl e" if "parse T ic cf = Inl e" and "last cf = CHR 0x0A"
  proof -
    from that(2) obtain zs where "Scan (cf @ cf') = Scan cf @ zs"
      using Scan_append [of cf cf'] by blast
    then show ?thesis using that(1) by (simp add: parse_def parse_loop_prefix_error)
  qed
  have 2: "(parse_line T ic sec (Suc n) l = Inl e \<longrightarrow> parse_loop T ic sec n (l # rest) = Inl e) \<and>
   (parse_loop T ic sec n xs = Inl e \<longrightarrow> parse_loop T ic sec n (xs @ ys) = Inl e) \<and>
   (TrimSpace (CommentStart os) \<noteq> [] \<and> parse T \<lparr>sections = Map.empty, options = os\<rparr> cf = Inl e \<longrightarrow>
      NewIniConfigFromFileWithOptions T (Some cf) (Some os) = Inl e) \<and>
   NewIniConfigFromFileWithOptions T None opts = Inl NilFile \<and>
   NewIniConfigFromFileWithOptions T (Some cf) None = Inl NilOptions \<and>
   (TrimSpace (CommentStart os) = [] \<longrightarrow>
      NewIniConfigFromFileWithOptions T (Some cf) (Some os) = Inl EmptyCommentStart)"
    by (simp add: NewIniConfigFromFileWithOptions_def parse_loop_prefix_error)
  show ?thesis using 1 2 by blast
qed

theorem fail_fast_witness:
  "parse_loop asciiTables (emptyConfig DefaultIniOptions) ''s'' 6 [''junk'', ''c=d'']
     = Inl (UnparseableLine 7) \<and>
   parse_loop asciiTables (emptyConfig DefaultIniOptions) GLOBAL_SECTION 0 [''a=b'', ''junk'', ''c=d'']
     = Inl (UnparseableLine 2) \<and>
   NewIniConfigFromFileWithOptions asciiTables
     (Some (''a=b'' @ [CHR 0x0A] @ ''junk'' @ [CHR 0x0A] @ ''c=d'')) (Some DefaultIniOptions)
     = Inl (UnparseableLine 2) \<and>
   NewIniConfigFromFileWithOptions asciiTables (Some ''a=b'')
     (Some (DefaultIniOptions\<lparr>CommentStart := '' ''\<rparr>)) = Inl EmptyCommentStart"
proof -
  let ?ic = "\<lparr>sections = Map.empty, options = DefaultIniOptions\<rparr>"
  let ?cf = "''a=b'' @ [CHR 0x0A] @ ''junk'' @ [CHR 0x0A]"
  have c: "TrimSpace (CommentStart DefaultIniOptions) \<noteq> []" by code_simp
  have p: "parse asciiTables ?ic ?cf = Inl (UnparseableLine 2)"
    by (rule is_error) code_simp
  have l: "last ?cf = CHR 0x0A" by simp
  have "parse asciiTables ?ic (?cf @ ''c=d'') = Inl (UnparseableLine 2)"
    using fail_fast [where T = asciiTables and ic = ?ic and cf = ?cf and cf' = "''c=d''"
        and e = "UnparseableLine 2"] p l
    by blast
  then have "NewIniConfigFromFileWithOptions asciiTables (Some (?cf @ ''c=d'')) (Some DefaultIniOptions)
               = Inl (UnparseableLine 2)"
    using c fail_fast [where T = asciiTables and os = DefaultIniOptions
        and cf = "?cf @ ''c=d''" and e = "UnparseableLine 2"]
    by blast
  then have 1: "NewIniConfigFromFileWithOptions asciiTables
       (Some (''a=b'' @ [CHR 0x0A] @ ''junk'' @ [CHR 0x0A] @ ''c=d'')) (Some DefaultIniOptions)
       = Inl (UnparseableLine 2)"
    by simp
  have d: "TrimSpace (CommentStart (DefaultIniOptions\<lparr>CommentStart := '' ''\<rparr>)) = []" by code_simp
  have 2: "NewIniConfigFromFileWithOptions asciiTables (Some ''a=b'')
     (Some (DefaultIniOptions\<lparr>CommentStart := '' ''\<rparr>)) = Inl EmptyCommentStart"
    using d fail_fast [where T = asciiTables and os = "DefaultIniOptions\<lparr>CommentStart := '' ''\<rparr>"
        and cf = "''a=b''"]
    by blast
  have "parse_line asciiTables (emptyConfig DefaultIniOptions) ''s'' (Suc 6) ''junk''
          = Inl (UnparseableLine 7)"
    by (rule is_error) code_simp
  then have 3: "parse_loop asciiTables (emptyConfig DefaultIniOptions) ''s'' 6 [''junk'', ''c=d'']
                  = Inl (UnparseableLine 7)"
    using fail_fast [where T = asciiTables and ic = "emptyConfig DefaultIniOptions" and sec = "''s''"
        and n = 6 and l = "''junk''" and e = "UnparseableLine 7" and rest = "[''c=d'']"]
    by blast
  have "parse_loop asciiTables (emptyConfig DefaultIniOptions) GLOBAL_SECTION 0 [''a=b'', ''junk'']
          = Inl (UnparseableLine 2)"
    by (rule is_error) code_simp
  then have "parse_loop asciiTables (emptyConfig DefaultIniOptions) GLOBAL_SECTION 0
               ([''a=b'', ''junk''] @ [''c=d'']) = Inl (UnparseableLine 2)"
    using fail_fast [where T = asciiTables and ic = "emptyConfig DefaultIniOptions"
        and sec = GLOBAL_SECTION and n = 0 and xs = "[''a=b'', ''junk'']" and ys = "[''c=d'']"
        and e = "UnparseableLine 2"]
    by blast
  then have 4: "parse_loop asciiTables (emptyConfig DefaultIniOptions) GLOBAL_SECTION 0
                  [''a=b'', ''junk'', ''c=d''] = Inl (UnparseableLine 2)"
    by simp
  show ?thesis using 1 2 3 4 by blast
qed

section \<open>Case folding\<close>



section \<open>Inline comments\<close>

text \<open>
  Claim C6, at the inputs where the code departs from it. With \<open>AllowInlineComments\<close> and
  the comment marker \<open>?\<close>, the line \<open>k=a\?b\<close> holds the marker only behind the escape
  prefix. \<open>stripInlineComments\<close> puts the placeholder \<open>[ESC_PH?]\<close> in the place of \<open>\?\<close> and
  then cuts the line at the \<open>?\<close> of the placeholder: the text left is \<open>k=a[ESC_PH\<close>, in
  which no placeholder is left to restore, and the value stored is \<open>a[ESC_PH\<close>, not
  \<open>a?b\<close>. With the marker \<open>;\<close>, the line \<open>k=[ESC_PH?]\<close> holds no marker, escaped or not;
  the last step takes its text for a placeholder, and the value stored is \<open>;\<close>. The two
  examples of the claim, whose marker \<open>;\<close> is not part of the placeholder and whose lines
  do not hold the placeholder, are as the claim says: \<open>host=localhost ;comment\<close> stores
  \<open>localhost\<close>, and \<open>k=a\;b ;real comment\<close> stores \<open>a;b\<close>.
\<close>

theorem escaped_marker_cut_at_placeholder:
  "stripInlineComments
     (emptyConfig (DefaultIniOptions\<lparr>AllowInlineComments := True, CommentStart := ''?''\<rparr>))
     (''k=a'' @ [CHR 0x5C] @ ''?b'') = ''k=a[ESC_PH'' \<and>
   \<not> isl (NewIniConfigFromFileWithOptions asciiTables (Some (''k=a'' @ [CHR 0x5C] @ ''?b''))
            (Some (DefaultIniOptions\<lparr>AllowInlineComments := True, CommentStart := ''?''\<rparr>))) \<and>
   Value asciiTables
     (projr (NewIniConfigFromFileWithOptions asciiTables (Some (''k=a'' @ [CHR 0x5C] @ ''?b''))
               (Some (DefaultIniOptions\<lparr>AllowInlineComments := True, CommentStart := ''?''\<rparr>))))
     GLOBAL_SECTION ''k'' = Inr ''a[ESC_PH'' \<and>
   \<not> isl (NewIniConfigFromFileWithOptions asciiTables (Some ''k=[ESC_PH?]'')
            (Some (DefaultIniOptions\<lparr>AllowInlineComments := True\<rparr>))) \<and>
   Value asciiTables
     (projr (NewIniConfigFromFileWithOptions asciiTables (Some ''k=[ESC_PH?]'')
               (Some (DefaultIniOptions\<lparr>AllowInlineComments := True\<rparr>))))
     GLOBAL_SECTION ''k'' = Inr '';'' \<and>
   Value asciiTables
     (projr (NewIniConfigFromFileWithOptions asciiTables (Some ''host=localhost ;comment'')
               (Some (DefaultIniOptions\<lparr>AllowInlineComments := True\<rparr>))))
     GLOBAL_SECTION ''host'' = Inr ''localhost'' \<and>
   Value asciiTables
     (projr (NewIniConfigFromFileWithOptions asciiTables
               (Some (''k=a'' @ [CHR 0x5C] @ '';b ;real comment''))
               (Some (DefaultIniOptions\<lparr>AllowInlineComments := True\<rparr>))))
     GLOBAL_SECTION ''k'' = Inr ''a;b''"
  by code_simp

section \<open>Enclosing quotes\<close>

text \<open>
  What \<open>stripQuotes\<close> does, in bytes. With \<open>StripEnclosingQuotes\<close> set, a value of at least
  two bytes whose first and last byte are, as numbers, one and the same rune of
  \<open>EnclosingQuoteSymbols\<close> loses exactly its first and its last byte: what is left is
  returned as it is, also when it is quoted again. Any other value is returned unchanged.
\<close>

lemma stripQuotes_bytes:
  assumes "StripEnclosingQuotes (options ic)"
  shows "stripQuotes ic v =
           (if 2 \<le> length v \<and>
               (\<exists>r \<in> set (EnclosingQuoteSymbols (options ic)).
                  of_char (hd v) = r \<and> of_char (last v) = r)
            then butlast (tl v) else v)"
proof (cases "length v < 2")
  case True
  then show ?thesis by (simp add: stripQuotes_def)
next
  case False
  then have ne: "v \<noteq> []" by auto
  have h: "v ! 0 = hd v" using ne by (simp add: hd_conv_nth)
  have l: "v ! (length v - 1) = last v" using ne by (simp add: last_conv_nth)
  have "stripQuotes ic v =
          (case find (\<lambda>r. of_char (v ! 0) = r \<and> of_char (v ! (length v - 1)) = r)
                  (EnclosingQuoteSymbols (options ic)) of
             Some r \<Rightarrow> take (length v - 1 - 1) (drop 1 v)
           | None \<Rightarrow> v)"
    unfolding stripQuotes_def Let_def using assms False by (simp only: if_False simp_thms)
  also have "\<dots> = (if \<exists>r \<in> set (EnclosingQuoteSymbols (options ic)).
                        of_char (hd v) = r \<and> of_char (last v) = r
                    then butlast (tl v) else v)"
    unfolding find_case h l strip_slice ..
  finally show ?thesis using False by (simp only: not_less if_True simp_thms)
qed

text \<open>
  Claim C7, at the inputs where the code departs from it. The symbols of
  \<open>EnclosingQuoteSymbols\<close> are runes (characters), and \<open>stripQuotes\<close> compares each with
  the first and with the last byte of the value. With the symbol U+201D, the right double
  quotation mark, whose UTF-8 encoding is the bytes E2 80 9D, the value that is \<open>a\<close>
  between two such marks is returned unchanged, by \<open>stripQuotes\<close> and by the parser that
  stores it: no byte of it is the rune. With the symbol U+00AB, encoded C2 AB, the value
  that is \<open>a\<close> between two such marks is returned unchanged too; and the value of the
  bytes AB, \<open>a\<close>, C2, AB, whose last character is the symbol and whose first character is
  not, loses its first byte and the second byte of its last character. With a symbol of
  one byte, the other options the same, the value \<open>"a"\<close> loses its two quotes.
\<close>

theorem stripQuotes_compares_bytes:
  "stripQuotes
     (emptyConfig (DefaultIniOptions\<lparr>StripEnclosingQuotes := True, EnclosingQuoteSymbols := [0x201D]\<rparr>))
     [CHR 0xE2, CHR 0x80, CHR 0x9D, CHR ''a'', CHR 0xE2, CHR 0x80, CHR 0x9D]
     = [CHR 0xE2, CHR 0x80, CHR 0x9D, CHR ''a'', CHR 0xE2, CHR 0x80, CHR 0x9D] \<and>
   Value asciiTables
     (projr (NewIniConfigFromFileWithOptions asciiTables
               (Some (''k='' @ [CHR 0xE2, CHR 0x80, CHR 0x9D, CHR ''a'', CHR 0xE2, CHR 0x80, CHR 0x9D]))
               (Some (DefaultIniOptions\<lparr>StripEnclosingQuotes := True,
                        EnclosingQuoteSymbols := [0x201D]\<rparr>))))
     GLOBAL_SECTION ''k'' = Inr [CHR 0xE2, CHR 0x80, CHR 0x9D, CHR ''a'', CHR 0xE2, CHR 0x80, CHR 0x9D] \<and>
   stripQuotes
     (emptyConfig (DefaultIniOptions\<lparr>StripEnclosingQuotes := True, EnclosingQuoteSymbols := [0xAB]\<rparr>))
     [CHR 0xC2, CHR 0xAB, CHR ''a'', CHR 0xC2, CHR 0xAB]
     = [CHR 0xC2, CHR 0xAB, CHR ''a'', CHR 0xC2, CHR 0xAB] \<and>
   stripQuotes
     (emptyConfig (DefaultIniOptions\<lparr>StripEnclosingQuotes := True, EnclosingQuoteSymbols := [0xAB]\<rparr>))
     [CHR 0xAB, CHR ''a'', CHR 0xC2, CHR 0xAB] = [CHR ''a'', CHR 0xC2] \<and>
   stripQuotes
     (emptyConfig (DefaultIniOptions\<lparr>StripEnclosingQuotes := True, EnclosingQuoteSymbols := [0x22]\<rparr>))
     [CHR 0x22, CHR ''a'', CHR 0x22] = ''a''"
  by code_simp

text \<open>The value \<open>"a"\<close> with the quotation mark as the symbol, where \<open>StripEnclosingQuotes\<close>
  is set and the value has three bytes: its first and its last byte are removed.\<close>

theorem stripQuotes_compares_bytes_witness:
  "StripEnclosingQuotes
     (options (emptyConfig (DefaultIniOptions\<lparr>StripEnclosingQuotes := True,
                              EnclosingQuoteSymbols := [0x22]\<rparr>))) \<and>
   stripQuotes
     (emptyConfig (DefaultIniOptions\<lparr>StripEnclosingQuotes := True, EnclosingQuoteSymbols := [0x22]\<rparr>))
     [CHR 0x22, CHR ''a'', CHR 0x22] = ''a''"
proof -
  have "StripEnclosingQuotes
     (options (emptyConfig (DefaultIniOptions\<lparr>StripEnclosingQuotes := True,
                              EnclosingQuoteSymbols := [0x22]\<rparr>)))"
    by (simp add: emptyConfig_def)
  then show ?thesis using stripQuotes_compares_bytes by blast
qed

section \<open>Properties before the first section header\<close>




section \<open>The accessors that return a zero value\<close>

text \<open>
  Claim C9. Each accessor \<open>ValueOrZero...\<close> returns the value of the accessor it wraps when
  that one succeeds, and the zero value of its type (the empty string, 0, 0, 0, false)
  when that one returns an error, whichever error it is; it returns a plain value, so no
  error leaves it.
\<close>

theorem or_zero_accessors:
  "(Value T ic s p = Inr v \<longrightarrow> ValueOrZero T ic s p = v) \<and>
   (Value T ic s p = Inl e \<longrightarrow> ValueOrZero T ic s p = []) \<and>
   (ValueAsFloat64 PF T ic s p = Inr x \<longrightarrow> ValueOrZeroAsFloat64 PF T ic s p = x) \<and>
   (ValueAsFloat64 PF T ic s p = Inl e \<longrightarrow> ValueOrZeroAsFloat64 PF T ic s p = 0) \<and>
   (ValueAsInt64 T ic s p = Inr i \<longrightarrow> ValueOrZeroAsInt64 T ic s p = i) \<and>
   (ValueAsInt64 T ic s p = Inl e \<longrightarrow> ValueOrZeroAsInt64 T ic s p = 0) \<and>
   (ValueAsUint64 T ic s p = Inr u \<longrightarrow> ValueOrZeroAsUint64 T ic s p = u) \<and>
   (ValueAsUint64 T ic s p = Inl e \<longrightarrow> ValueOrZeroAsUint64 T ic s p = 0) \<and>
   (ValueAsBool T ic s p = Inr b \<longrightarrow> ValueOrZeroAsBool T ic s p = b) \<and>
   (ValueAsBool T ic s p = Inl e \<longrightarrow> ValueOrZeroAsBool T ic s p = False)"
  by (simp add: ValueOrZero_def ValueOrZeroAsFloat64_def ValueOrZeroAsInt64_def
      ValueOrZeroAsUint64_def ValueOrZeroAsBool_def)

theorem or_zero_accessors_witness:
  "ValueOrZero asciiTables (Add asciiTables (emptyConfig DefaultIniOptions) ''s'' ''n'' ''4'') ''s'' ''n'' = ''4'' \<and>
   ValueOrZeroAsInt64 asciiTables (Add asciiTables (emptyConfig DefaultIniOptions) ''s'' ''n'' ''4'') ''s'' ''n'' = 4 \<and>
   ValueOrZeroAsUint64 asciiTables (Add asciiTables (emptyConfig DefaultIniOptions) ''s'' ''n'' ''4'') ''s'' ''n'' = 4 \<and>
   ValueOrZeroAsFloat64 (\<lambda>s. None) asciiTables (Add asciiTables (emptyConfig DefaultIniOptions) ''s'' ''n'' ''4'') ''s'' ''n'' = (0::int) \<and>
   ValueOrZeroAsBool asciiTables (Add asciiTables (emptyConfig DefaultIniOptions) ''s'' ''n'' ''4'') ''s'' ''n'' = False"
proof -
  let ?ic = "Add asciiTables (emptyConfig DefaultIniOptions) ''s'' ''n'' ''4''"
  have a: "Value asciiTables ?ic ''s'' ''n'' = Inr ''4''" by code_simp
  have b: "ValueAsInt64 asciiTables ?ic ''s'' ''n'' = Inr 4" by code_simp
  have c: "ValueAsBool asciiTables ?ic ''s'' ''n'' = Inl (NotGoBool ''s'' ''n'')" by code_simp
  have u: "ValueAsUint64 asciiTables ?ic ''s'' ''n'' = Inr 4" by code_simp
  have d: "ValueAsFloat64 (\<lambda>s. None :: int option) asciiTables ?ic ''s'' ''n'' = Inl (NotFloat64 ''s'' ''n'' ''4'')" by code_simp
  note t1 = or_zero_accessors [where T = asciiTables and ic = ?ic and s = "''s''" and p = "''n''"
        and v = "''4''" and i = 4 and e = "NotGoBool ''s'' ''n''" and PF = "\<lambda>s. None :: int option"
        and x = 0 and u = 4 and b = False]
  note t2 = or_zero_accessors [where T = asciiTables and ic = ?ic and s = "''s''" and p = "''n''"
        and v = "''4''" and i = 4 and e = "NotFloat64 ''s'' ''n'' ''4''" and PF = "\<lambda>s. None :: int option"
        and x = 0 and u = 4 and b = False]
  from t1 a have 1: "ValueOrZero asciiTables ?ic ''s'' ''n'' = ''4''" by blast
  from t1 b have 2: "ValueOrZeroAsInt64 asciiTables ?ic ''s'' ''n'' = 4" by blast
  from t1 c have 3: "ValueOrZeroAsBool asciiTables ?ic ''s'' ''n'' = False" by blast
  from t2 d have 4: "ValueOrZeroAsFloat64 (\<lambda>s. None) asciiTables ?ic ''s'' ''n'' = (0::int)" by blast
  from t1 u have 5: "ValueOrZeroAsUint64 asciiTables ?ic ''s'' ''n'' = 4" by blast
  show ?thesis using 1 2 3 4 5 by blast
qed

section \<open>Every stored cell is set\<close>

text \<open>
  Claim C10. In every configuration that a constructor returns, and in every configuration
  reached from one by calls of \<open>Add\<close>, each cell of the store has its flag set: cells
  enter the store through \<open>Add\<close> only, which makes them with \<open>newNilableString\<close>. So a
  property that exists has a cell that is set, whose string \<open>Value\<close> returns, be it the
  empty string.
\<close>

theorem stored_cells_are_set:
  assumes "NewIniConfigFromFileWithOptions T file opts = Inr ic0"
      and "ic = AddAll T ic0 adds"
  shows "(\<forall>s sec p c. sections ic s = Some sec \<and> sec p = Some c \<longrightarrow> IsSet c) \<and>
         (\<forall>s p. PropertyExists T ic s p \<longrightarrow>
            (\<exists>sec c. findSection T ic s = Some sec \<and> sec (normalise T ic p) = Some c \<and> IsSet c
                     \<and> Value T ic s p = Inr (String_ns c)))"
proof -
  from assms(1) obtain ls os where
    p: "parse_loop T \<lparr>sections = Map.empty, options = os\<rparr> GLOBAL_SECTION 0 ls = Inr ic0"
    by (auto simp: NewIniConfigFromFileWithOptions_def parse_def
        split: option.splits if_splits)
  have "allSet \<lparr>sections = Map.empty, options = os\<rparr>" by (simp add: allSet_def)
  then have "allSet ic0" using p by (rule allSet_parse_loop)
  then have a: "allSet ic" unfolding assms(2) by (rule allSet_AddAll)
  then have 1: "\<forall>s sec p c. sections ic s = Some sec \<and> sec p = Some c \<longrightarrow> IsSet c"
    by (simp add: allSet_def)
  have 2: "\<forall>s p. PropertyExists T ic s p \<longrightarrow>
            (\<exists>sec c. findSection T ic s = Some sec \<and> sec (normalise T ic p) = Some c \<and> IsSet c
                     \<and> Value T ic s p = Inr (String_ns c))"
    using 1 by (auto simp: PropertyExists_def Value_def findSection_def Let_def split: option.splits)
  show ?thesis using 1 2 by blast
qed

theorem stored_cells_are_set_witness:
  "PropertyExists asciiTables
     (AddAll asciiTables
        (projr (NewIniConfigFromFileWithOptions asciiTables (Some (''[s]'' @ [CHR 0x0A] @ ''k=''))
                  (Some (DefaultIniOptions\<lparr>DiscardPropertiesWithNoValue := False\<rparr>))))
        [(''t'', ''q'', [])]) ''s'' ''k'' \<and>
   (\<exists>sec c. findSection asciiTables
      (AddAll asciiTables
        (projr (NewIniConfigFromFileWithOptions asciiTables (Some (''[s]'' @ [CHR 0x0A] @ ''k=''))
                  (Some (DefaultIniOptions\<lparr>DiscardPropertiesWithNoValue := False\<rparr>))))
        [(''t'', ''q'', [])]) ''s'' = Some sec \<and> sec ''k'' = Some c \<and> IsSet c \<and> String_ns c = [])"
proof -
  let ?r = "NewIniConfigFromFileWithOptions asciiTables (Some (''[s]'' @ [CHR 0x0A] @ ''k=''))
              (Some (DefaultIniOptions\<lparr>DiscardPropertiesWithNoValue := False\<rparr>))"
  let ?ic = "AddAll asciiTables (projr ?r) [(''t'', ''q'', [])]"
  have "\<not> isl ?r" by code_simp
  then have e: "?r = Inr (projr ?r)" by (cases ?r) simp_all
  have pe: "PropertyExists asciiTables ?ic ''s'' ''k''" by code_simp
  have n: "normalise asciiTables ?ic ''k'' = ''k''" by code_simp
  have v: "Value asciiTables ?ic ''s'' ''k'' = Inr []" by code_simp
  from stored_cells_are_set [OF e refl, of "[(''t'', ''q'', [])]"] pe
  obtain sec c where "findSection asciiTables ?ic ''s'' = Some sec"
    "sec (normalise asciiTables ?ic ''k'') = Some c" "IsSet c"
    "Value asciiTables ?ic ''s'' ''k'' = Inr (String_ns c)"
    by blast
  then have "findSection asciiTables ?ic ''s'' = Some sec \<and> sec ''k'' = Some c \<and> IsSet c
             \<and> String_ns c = []"
    using n v by simp
  then show ?thesis using pe by blast
qed

end
